theory Spec2Isabelle
  imports Complex_Main "HOL-Library.Word"
begin

section \<open>Embedding cache (emb\_cache.py)\<close>

text \<open>
  A shallow embedding of the module \<^verbatim>\<open>emb_cache.py\<close>: key derivation, the vector codec,
  the SQLite table \<^verbatim>\<open>embeddings\<close> as an explicit state, lookup with lazy expiry, insertion
  with capacity eviction, and batch lookup.

  Library functions that are not code of this module are parameters of the model:
  \<^item> \<open>sha256\<close> stands for \<^verbatim>\<open>hashlib.sha256(b).hexdigest()\<close>;
  \<^item> \<open>to_f32\<close> stands for numpy's conversion of a Python float to the bit pattern of
    the nearest \<^verbatim>\<open>float32\<close>, and \<open>of_f32\<close> for the conversion back done by
    \<^verbatim>\<open>tolist()\<close>; the cache functions are stated for any pair of conversions, and the
    codec is studied with the IEEE 754 conversions \<open>float32_bits\<close> and \<open>f32_value\<close>
    defined below;
  \<^item> the clock \<^verbatim>\<open>time.time()\<close> is the argument \<open>now\<close>;
  \<^item> \<open>fsub\<close> stands for the subtraction of two Python floats: \<open>fsub a b\<close> is the
    binary64 number that \<^verbatim>\<open>a - b\<close> evaluates to, which is the exact difference only
    where that is a binary64 number itself;
  \<^item> \<open>limit\<close> stands for SQLite's ceiling on the number of bound parameters of one
    statement (\<^verbatim>\<open>SQLITE_MAX_VARIABLE_NUMBER\<close>: 999 in older builds, 32766 in current ones);
    a statement with more placeholders raises \<^verbatim>\<open>sqlite3.OperationalError\<close>.
  Other failures of the storage engine (a locked or unwritable file) are outside the model.
\<close>

subsection \<open>Strings and bytes\<close>

text \<open>
  A Python \<^verbatim>\<open>str\<close> is a sequence of code points; a \<^verbatim>\<open>bytes\<close> object is a sequence of
  8-bit values.
\<close>

type_synonym str = "nat list"
type_synonym bytes = "8 word list"

datatype error = UnicodeEncodeError | ValueError | OperationalError

text \<open>
  The characters that \<^verbatim>\<open>str.split()\<close> without a separator treats as whitespace
  (CPython's \<^verbatim>\<open>Py_UNICODE_ISSPACE\<close>).
\<close>

definition isspace :: "nat \<Rightarrow> bool" where
  "isspace c \<longleftrightarrow>
     (9 \<le> c \<and> c \<le> 13) \<or> (28 \<le> c \<and> c \<le> 32) \<or> c = 133 \<or> c = 160 \<or> c = 5760 \<or>
     (8192 \<le> c \<and> c \<le> 8202) \<or> c = 8232 \<or> c = 8233 \<or> c = 8239 \<or> c = 8287 \<or> c = 12288"

text \<open>
  \<^verbatim>\<open>text.split()\<close>: scan the text, collecting the current word in \<open>cur\<close>; a whitespace
  character closes a non-empty word, runs of whitespace produce nothing.
\<close>

fun split_from :: "str \<Rightarrow> str \<Rightarrow> str list" where
  "split_from cur [] = (if cur = [] then [] else [cur])"
| "split_from cur (c # cs) =
     (if isspace c then (if cur = [] then split_from [] cs else cur # split_from [] cs)
      else split_from (cur @ [c]) cs)"

definition str_split :: "str \<Rightarrow> str list" where
  "str_split text = split_from [] text"

text \<open>\<^verbatim>\<open>sep.join(words)\<close>.\<close>

fun str_join :: "str \<Rightarrow> str list \<Rightarrow> str" where
  "str_join sep [] = []"
| "str_join sep [w] = w"
| "str_join sep (w # v # ws) = w @ sep @ str_join sep (v # ws)"

text \<open>
  \<^verbatim>\<open>s.encode("utf-8")\<close>. A code point is encoded in one to four bytes; a surrogate
  (\<open>0xD800\<close> to \<open>0xDFFF\<close>) cannot be encoded and raises \<^verbatim>\<open>UnicodeEncodeError\<close>. Values
  from \<open>0x110000\<close> on are no code points of a Python string; the model rejects them too.
\<close>

definition encodable :: "nat \<Rightarrow> bool" where
  "encodable c \<longleftrightarrow> c < 0xD800 \<or> (0xE000 \<le> c \<and> c < 0x110000)"

definition utf8_units :: "nat \<Rightarrow> nat list" where
  "utf8_units c =
     (if c < 0x80 then [c]
      else if c < 0x800 then [0xC0 + c div 64, 0x80 + c mod 64]
      else if c < 0x10000 then [0xE0 + c div 4096, 0x80 + (c div 64) mod 64, 0x80 + c mod 64]
      else [0xF0 + c div 262144, 0x80 + (c div 4096) mod 64, 0x80 + (c div 64) mod 64,
            0x80 + c mod 64])"

fun encode_utf8 :: "str \<Rightarrow> error + bytes" where
  "encode_utf8 [] = Inr []"
| "encode_utf8 (c # cs) =
     (if encodable c then
        (case encode_utf8 cs of
           Inl e \<Rightarrow> Inl e
         | Inr bs \<Rightarrow> Inr (map of_nat (utf8_units c) @ bs))
      else Inl UnicodeEncodeError)"

subsection \<open>Key derivation\<close>

text \<open>
  \<^verbatim>\<open>cleaned = " ".join(text.split())\<close> and \<^verbatim>\<open>base = f"{model}|{cleaned}"\<close>; the space is
  code point 32 and the bar is code point 124.
\<close>

definition cleaned :: "str \<Rightarrow> str" where
  "cleaned text = str_join [32] (str_split text)"

definition base :: "str \<Rightarrow> str \<Rightarrow> str" where
  "base text model = model @ [124] @ cleaned text"

definition make_key :: "(bytes \<Rightarrow> string) \<Rightarrow> str \<Rightarrow> str \<Rightarrow> error + string" where
  "make_key sha256 text model =
     (case encode_utf8 (base text model) of
        Inl e \<Rightarrow> Inl e
      | Inr bs \<Rightarrow> Inr (sha256 bs))"

subsection \<open>Vector codec\<close>

text \<open>
  \<^verbatim>\<open>np.array(emb, dtype=np.float32).tobytes()\<close>: every component is converted to a
  \<^verbatim>\<open>float32\<close>, whose 32-bit pattern is written as four bytes, least significant first.
\<close>

definition f32_bytes :: "32 word \<Rightarrow> bytes" where
  "f32_bytes w = [ucast w, ucast (drop_bit 8 w), ucast (drop_bit 16 w), ucast (drop_bit 24 w)]"

definition serialize_emb :: "('f \<Rightarrow> 32 word) \<Rightarrow> 'f list \<Rightarrow> bytes" where
  "serialize_emb to_f32 emb = concat (map (\<lambda>x. f32_bytes (to_f32 x)) emb)"

text \<open>
  \<^verbatim>\<open>np.frombuffer(b, dtype=np.float32).tolist()\<close>: numpy raises \<^verbatim>\<open>ValueError\<close> when the
  size of the buffer is not a multiple of the element size; otherwise each group of four
  bytes is one \<^verbatim>\<open>float32\<close>, converted back to a Python float.
\<close>

definition f32_of_bytes :: "8 word \<Rightarrow> 8 word \<Rightarrow> 8 word \<Rightarrow> 8 word \<Rightarrow> 32 word" where
  "f32_of_bytes b0 b1 b2 b3 =
     or (ucast b0) (or (push_bit 8 (ucast b1)) (or (push_bit 16 (ucast b2)) (push_bit 24 (ucast b3))))"

fun frombuffer :: "bytes \<Rightarrow> 32 word list" where
  "frombuffer (b0 # b1 # b2 # b3 # bs) = f32_of_bytes b0 b1 b2 b3 # frombuffer bs"
| "frombuffer bs = []"

definition deserialize_emb :: "(32 word \<Rightarrow> 'f) \<Rightarrow> bytes \<Rightarrow> error + 'f list" where
  "deserialize_emb of_f32 b =
     (if length b mod 4 \<noteq> 0 then Inl ValueError else Inr (map of_f32 (frombuffer b)))"

subsection \<open>The \<^verbatim>\<open>float32\<close> conversions\<close>








subsection \<open>The table \<^verbatim>\<open>embeddings\<close>\<close>

text \<open>
  One row of the table; \<open>row_key\<close> is the primary key. The store is the list of rows in
  the order of their insertion (their rowid order). The module constants
  \<^verbatim>\<open>MAX_ENTRIES\<close> and \<^verbatim>\<open>TTL_SECONDS\<close> are read from a configuration record;
  \<open>default_config\<close> holds the values written in the module.
\<close>

record row =
  row_key :: string
  row_model :: str
  row_text :: str
  row_emb :: bytes
  row_created_at :: real

type_synonym store = "row list"

record config =
  MAX_ENTRIES :: nat
  TTL_SECONDS :: real

definition default_config :: config where
  "default_config = \<lparr>MAX_ENTRIES = 200000, TTL_SECONDS = 60 * 60 * 24 * 30\<rparr>"

text \<open>The primary key holds: no two rows share a key.\<close>

definition wf_store :: "store \<Rightarrow> bool" where
  "wf_store s \<longleftrightarrow> distinct (map row_key s)"

text \<open>\<^verbatim>\<open>SELECT ... WHERE key = ?\<close> followed by \<^verbatim>\<open>fetchone()\<close>.\<close>

definition select_one :: "string \<Rightarrow> store \<Rightarrow> row option" where
  "select_one key s = find (\<lambda>r. row_key r = key) s"

text \<open>\<^verbatim>\<open>SELECT ... WHERE key IN (...)\<close> followed by \<^verbatim>\<open>fetchall()\<close>.\<close>

definition select_in :: "string list \<Rightarrow> store \<Rightarrow> row list" where
  "select_in keys s = filter (\<lambda>r. row_key r \<in> set keys) s"

text \<open>\<^verbatim>\<open>DELETE FROM embeddings WHERE key = ?\<close> and \<^verbatim>\<open>... WHERE key IN (...)\<close>.\<close>

definition delete_key :: "string \<Rightarrow> store \<Rightarrow> store" where
  "delete_key key s = filter (\<lambda>r. row_key r \<noteq> key) s"

definition delete_keys :: "string set \<Rightarrow> store \<Rightarrow> store" where
  "delete_keys keys s = filter (\<lambda>r. row_key r \<notin> keys) s"

text \<open>\<^verbatim>\<open>INSERT OR REPLACE\<close>: a row with the same key is removed, the new row is added.\<close>

definition insert_or_replace :: "row \<Rightarrow> store \<Rightarrow> store" where
  "insert_or_replace r s = filter (\<lambda>x. row_key x \<noteq> row_key r) s @ [r]"

text \<open>
  \<^verbatim>\<open>SELECT key FROM embeddings ORDER BY created_at ASC LIMIT n\<close>: rows with equal
  timestamps are taken in insertion order.
\<close>

definition oldest_keys :: "nat \<Rightarrow> store \<Rightarrow> string list" where
  "oldest_keys n s = map row_key (take n (sort_key row_created_at s))"

text \<open>
  The test \<^verbatim>\<open>TTL_SECONDS and (now - created_at) > TTL_SECONDS\<close>, on the difference as
  the floating-point subtraction gives it.
\<close>

definition expired :: "config \<Rightarrow> (real \<Rightarrow> real \<Rightarrow> real) \<Rightarrow> real \<Rightarrow> row \<Rightarrow> bool" where
  "expired cfg fsub now r \<longleftrightarrow>
     TTL_SECONDS cfg \<noteq> 0 \<and> fsub now (row_created_at r) > TTL_SECONDS cfg"

subsection \<open>Single lookup and insertion\<close>

text \<open>
  Every operation returns its result, or the exception it raises, together with the
  store it leaves behind. In \<^verbatim>\<open>cutoff = int(MAX_ENTRIES * 0.9)\<close> the product is a
  floating-point number; for every cap below \<open>10^14\<close>, and so for the module's 200000,
  its integer part is \<open>MAX_ENTRIES * 9 div 10\<close>.
\<close>

definition get_embedding_from_cache ::
  "config \<Rightarrow> (bytes \<Rightarrow> string) \<Rightarrow> (32 word \<Rightarrow> 'f) \<Rightarrow> (real \<Rightarrow> real \<Rightarrow> real) \<Rightarrow> real \<Rightarrow> str \<Rightarrow> str
     \<Rightarrow> store \<Rightarrow> (error + 'f list option) \<times> store" where
  "get_embedding_from_cache cfg sha256 of_f32 fsub now text model s =
     (case make_key sha256 text model of
        Inl e \<Rightarrow> (Inl e, s)
      | Inr key \<Rightarrow>
          (case select_one key s of
             None \<Rightarrow> (Inr None, s)
           | Some r \<Rightarrow>
               if expired cfg fsub now r then (Inr None, delete_key key s)
               else (case deserialize_emb of_f32 (row_emb r) of
                       Inl e \<Rightarrow> (Inl e, s)
                     | Inr v \<Rightarrow> (Inr (Some v), s))))"

definition put_embedding_in_cache ::
  "config \<Rightarrow> (bytes \<Rightarrow> string) \<Rightarrow> ('f \<Rightarrow> 32 word) \<Rightarrow> real \<Rightarrow> str \<Rightarrow> str \<Rightarrow> 'f list \<Rightarrow> store
     \<Rightarrow> (error + unit) \<times> store" where
  "put_embedding_in_cache cfg sha256 to_f32 now text model emb s =
     (case make_key sha256 text model of
        Inl e \<Rightarrow> (Inl e, s)
      | Inr key \<Rightarrow>
          (let emb_blob = serialize_emb to_f32 emb;
               s1 = insert_or_replace
                      \<lparr>row_key = key, row_model = model, row_text = take 2000 text,
                       row_emb = emb_blob, row_created_at = now\<rparr> s;
               count = length s1
           in if count > MAX_ENTRIES cfg then
                (let cutoff = MAX_ENTRIES cfg * 9 div 10
                 in (Inr (), delete_keys (set (oldest_keys (count - cutoff) s1)) s1))
              else (Inr (), s1)))"

subsection \<open>Batch lookup\<close>

text \<open>\<^verbatim>\<open>keys = [_make_key(t, model) for t in texts]\<close>; the first failure is raised.\<close>

fun make_keys :: "(bytes \<Rightarrow> string) \<Rightarrow> str list \<Rightarrow> str \<Rightarrow> error + string list" where
  "make_keys sha256 [] model = Inr []"
| "make_keys sha256 (t # ts) model =
     (case make_key sha256 t model of
        Inl e \<Rightarrow> Inl e
      | Inr k \<Rightarrow>
          (case make_keys sha256 ts model of
             Inl e \<Rightarrow> Inl e
           | Inr ks \<Rightarrow> Inr (k # ks)))"

text \<open>
  \<^verbatim>\<open>for i, k in enumerate(keys): key_to_idxs.setdefault(k, []).append(i)\<close>, and the
  lookup \<^verbatim>\<open>key_to_idxs.get(key, [])\<close>.
\<close>

fun group_idxs :: "(nat \<times> string) list \<Rightarrow> (string \<rightharpoonup> nat list) \<Rightarrow> (string \<rightharpoonup> nat list)" where
  "group_idxs [] m = m"
| "group_idxs ((i, k) # rest) m =
     group_idxs rest (m(k \<mapsto> (case m k of None \<Rightarrow> [] | Some idxs \<Rightarrow> idxs) @ [i]))"

definition key_to_idxs :: "string list \<Rightarrow> (string \<rightharpoonup> nat list)" where
  "key_to_idxs keys = group_idxs (enumerate 0 keys) Map.empty"

definition idxs_of :: "(string \<rightharpoonup> nat list) \<Rightarrow> string \<Rightarrow> nat list" where
  "idxs_of k2i key = (case k2i key of None \<Rightarrow> [] | Some idxs \<Rightarrow> idxs)"

text \<open>\<^verbatim>\<open>for idx in ...: found[idx] = emb\<close>.\<close>

fun assign_all :: "nat list \<Rightarrow> 'v \<Rightarrow> (nat \<rightharpoonup> 'v) \<Rightarrow> (nat \<rightharpoonup> 'v)" where
  "assign_all [] emb found = found"
| "assign_all (idx # idxs) emb found = assign_all idxs emb (found(idx \<mapsto> emb))"

text \<open>
  The body of the loop over the rows of one query. The state is the dictionary \<open>found\<close>
  and the set \<open>expired_keys\<close>; a blob that cannot be decoded raises.
\<close>

fun process_rows ::
  "config \<Rightarrow> (32 word \<Rightarrow> 'f) \<Rightarrow> (real \<Rightarrow> real \<Rightarrow> real) \<Rightarrow> real \<Rightarrow> (string \<rightharpoonup> nat list) \<Rightarrow> row list
     \<Rightarrow> (nat \<rightharpoonup> 'f list) \<times> string set \<Rightarrow> error + (nat \<rightharpoonup> 'f list) \<times> string set" where
  "process_rows cfg of_f32 fsub now k2i [] st = Inr st"
| "process_rows cfg of_f32 fsub now k2i (r # rows) (found, expired_keys) =
     (if expired cfg fsub now r then
        process_rows cfg of_f32 fsub now k2i rows (found, insert (row_key r) expired_keys)
      else
        (case deserialize_emb of_f32 (row_emb r) of
           Inl e \<Rightarrow> Inl e
         | Inr emb \<Rightarrow>
             process_rows cfg of_f32 fsub now k2i rows
               (assign_all (idxs_of k2i (row_key r)) emb found, expired_keys)))"

text \<open>
  \<^verbatim>\<open>for i in range(0, len(keys), MAX_VARS): chunk = keys[i:i+MAX_VARS] ...\<close>: one query
  per chunk. The step is an argument; \<^verbatim>\<open>range\<close> raises \<^verbatim>\<open>ValueError\<close> for a step of
  zero (the module's step is the constant 900).
\<close>

function chunk_loop ::
  "config \<Rightarrow> (32 word \<Rightarrow> 'f) \<Rightarrow> (real \<Rightarrow> real \<Rightarrow> real) \<Rightarrow> real \<Rightarrow> (string \<rightharpoonup> nat list) \<Rightarrow> store
     \<Rightarrow> nat \<Rightarrow> string list \<Rightarrow> nat \<Rightarrow> (nat \<rightharpoonup> 'f list) \<times> string set
     \<Rightarrow> error + (nat \<rightharpoonup> 'f list) \<times> string set" where
  "chunk_loop cfg of_f32 fsub now k2i s max_vars keys i st =
     (if max_vars = 0 then Inl ValueError
      else if i < length keys then
        (case process_rows cfg of_f32 fsub now k2i (select_in (take max_vars (drop i keys)) s) st of
           Inl e \<Rightarrow> Inl e
         | Inr st' \<Rightarrow> chunk_loop cfg of_f32 fsub now k2i s max_vars keys (i + max_vars) st')
      else Inr st)"
  by pat_completeness auto
termination
  by (relation "measure (\<lambda>(cfg, of_f32, fsub, now, k2i, s, max_vars, keys, i, st). length keys - i)") auto

declare chunk_loop.simps [simp del]

definition MAX_VARS :: nat where
  "MAX_VARS = 900"

text \<open>
  \<^verbatim>\<open>batch_get_embeddings\<close>: the result is the dictionary \<open>found\<close> and the list \<open>missing\<close>.
  An exception leaves the loop before the deletion of the expired keys. The query of a chunk
  binds at most 900 parameters, which every ceiling that SQLite is built with admits. The
  \<^verbatim>\<open>DELETE\<close> binds one parameter for every expired key in a single statement: above the
  ceiling the statement raises, nothing is deleted and the call returns no result.
\<close>

definition batch_get_embeddings ::
  "config \<Rightarrow> nat \<Rightarrow> (bytes \<Rightarrow> string) \<Rightarrow> (32 word \<Rightarrow> 'f) \<Rightarrow> (real \<Rightarrow> real \<Rightarrow> real) \<Rightarrow> real
     \<Rightarrow> str list \<Rightarrow> str \<Rightarrow> store \<Rightarrow> (error + (nat \<rightharpoonup> 'f list) \<times> nat list) \<times> store" where
  "batch_get_embeddings cfg limit sha256 of_f32 fsub now texts model s =
     (if texts = [] then (Inr (Map.empty, []), s)
      else
        (case make_keys sha256 texts model of
           Inl e \<Rightarrow> (Inl e, s)
         | Inr keys \<Rightarrow>
             (case chunk_loop cfg of_f32 fsub now (key_to_idxs keys) s MAX_VARS keys 0 (Map.empty, {}) of
                Inl e \<Rightarrow> (Inl e, s)
              | Inr (found, expired_keys) \<Rightarrow>
                  (let missing = filter (\<lambda>i. found i = None) [0..<length texts]
                   in if expired_keys \<noteq> {} then
                        (if card expired_keys > limit then (Inl OperationalError, s)
                         else (Inr (found, missing), delete_keys expired_keys s))
                      else (Inr (found, missing), s)))))"

text \<open>
  The same procedure with a single query over all keys instead of the loop over chunks:
  the reference that the chunked lookup is compared with.
\<close>

definition batch_get_unchunked ::
  "config \<Rightarrow> nat \<Rightarrow> (bytes \<Rightarrow> string) \<Rightarrow> (32 word \<Rightarrow> 'f) \<Rightarrow> (real \<Rightarrow> real \<Rightarrow> real) \<Rightarrow> real
     \<Rightarrow> str list \<Rightarrow> str \<Rightarrow> store \<Rightarrow> (error + (nat \<rightharpoonup> 'f list) \<times> nat list) \<times> store" where
  "batch_get_unchunked cfg limit sha256 of_f32 fsub now texts model s =
     (if texts = [] then (Inr (Map.empty, []), s)
      else
        (case make_keys sha256 texts model of
           Inl e \<Rightarrow> (Inl e, s)
         | Inr keys \<Rightarrow>
             (case process_rows cfg of_f32 fsub now (key_to_idxs keys) (select_in keys s) (Map.empty, {}) of
                Inl e \<Rightarrow> (Inl e, s)
              | Inr (found, expired_keys) \<Rightarrow>
                  (let missing = filter (\<lambda>i. found i = None) [0..<length texts]
                   in if expired_keys \<noteq> {} then
                        (if card expired_keys > limit then (Inl OperationalError, s)
                         else (Inr (found, missing), delete_keys expired_keys s))
                      else (Inr (found, missing), s)))))"

subsection \<open>Notions used in the proofs about the batch lookup\<close>

text \<open>
  The rows of a list that are not expired and whose key belongs to position \<open>i\<close>; the
  entry of \<open>found\<close> at a position after such rows have been processed (the last one
  wins); and the property of \<open>key_to_idxs\<close> that a position is listed under one key only.
\<close>

definition hits ::
  "config \<Rightarrow> (real \<Rightarrow> real \<Rightarrow> real) \<Rightarrow> real \<Rightarrow> (string \<rightharpoonup> nat list) \<Rightarrow> row list \<Rightarrow> nat \<Rightarrow> row list" where
  "hits cfg fsub now k2i rows i =
     filter (\<lambda>r. \<not> expired cfg fsub now r \<and> i \<in> set (idxs_of k2i (row_key r))) rows"

definition found_after :: "(32 word \<Rightarrow> 'f) \<Rightarrow> row list \<Rightarrow> 'f list option \<Rightarrow> 'f list option" where
  "found_after of_f32 hs old =
     (if hs = [] then old else Some (map of_f32 (frombuffer (row_emb (last hs)))))"

definition one_key :: "(string \<rightharpoonup> nat list) \<Rightarrow> bool" where
  "one_key k2i \<longleftrightarrow>
     (\<forall>k k' i. i \<in> set (idxs_of k2i k) \<longrightarrow> i \<in> set (idxs_of k2i k') \<longrightarrow> k = k')"

subsection \<open>A digest for the examples\<close>

text \<open>
  The theorems below hold for every digest function. Where an example needs a concrete one,
  it uses this stand-in, which maps distinct byte strings to distinct strings.
\<close>

definition example_digest :: "bytes \<Rightarrow> string" where
  "example_digest bs = map (\<lambda>b. char_of (unat b)) bs"

section \<open>Properties\<close>

subsection \<open>Splitting and joining\<close>

lemma split_from_nospace:
  "\<forall>c\<in>set cur. \<not> isspace c \<Longrightarrow> w \<in> set (split_from cur t) \<Longrightarrow> w \<noteq> [] \<and> (\<forall>c\<in>set w. \<not> isspace c)"
proof (induction cur t rule: split_from.induct)
  case (1 cur)
  then show ?case by (auto split: if_splits)
next
  case (2 cur c cs)
  show ?case
  proof (cases "isspace c")
    case True
    note sp = this
    show ?thesis
    proof (cases "cur = []")
      case True
      with sp "2.prems" have "w \<in> set (split_from [] cs)" by simp
      with "2.IH"(1) [OF sp True] show ?thesis by simp
    next
      case False
      with sp "2.prems" have "w = cur \<or> w \<in> set (split_from [] cs)" by simp
      then show ?thesis
      proof
        assume "w = cur"
        with False "2.prems"(1) show ?thesis by simp
      next
        assume "w \<in> set (split_from [] cs)"
        with "2.IH"(2) [OF sp False] show ?thesis by simp
      qed
    qed
  next
    case False
    with "2.prems" have a: "w \<in> set (split_from (cur @ [c]) cs)" by simp
    from False "2.prems"(1) have b: "\<forall>x\<in>set (cur @ [c]). \<not> isspace x" by simp
    from "2.IH"(3) [OF False b a] show ?thesis .
  qed
qed

lemma str_split_words:
  "w \<in> set (str_split t) \<Longrightarrow> w \<noteq> [] \<and> (\<forall>c\<in>set w. \<not> isspace c)"
  unfolding str_split_def using split_from_nospace [of "[]" w t] by simp

lemma append_sep_eq:
  "s \<notin> set x \<Longrightarrow> s \<notin> set y \<Longrightarrow> x @ s # r = y @ s # r' \<Longrightarrow> x = y \<and> r = r'"
proof (induction x arbitrary: y)
  case Nil
  then show ?case by (cases y) auto
next
  case (Cons a x)
  then show ?case by (cases y) auto
qed

lemma str_join_inj:
  "\<forall>w\<in>set xs. w \<noteq> [] \<and> s \<notin> set w \<Longrightarrow> \<forall>w\<in>set ys. w \<noteq> [] \<and> s \<notin> set w \<Longrightarrow>
   str_join [s] xs = str_join [s] ys \<Longrightarrow> xs = ys"
proof (induction xs arbitrary: ys)
  case Nil
  then show ?case 
  proof (cases ys)
    case (Cons y ys')
    with Nil show ?thesis by (cases ys') auto
  qed simp
next
  case (Cons x xs)
  note Cp = Cons.prems and CIH = Cons.IH
  show ?case
  proof (cases ys)
    case Nil
    with Cp show ?thesis by (cases xs) auto
  next
    case (Cons y ys')
    show ?thesis
    proof (cases xs)
      case Nil
      note xn = this
      show ?thesis
      proof (cases ys')
        case Nil
        with xn Cons Cp show ?thesis by simp
      next
        case (Cons v vs)
        with xn \<open>ys = y # ys'\<close> Cp have "x = y @ s # str_join [s] (v # vs)" by simp
        with Cp(1) show ?thesis by auto
      qed
    next
      case (Cons u us)
      note xc = this
      show ?thesis
      proof (cases ys')
        case Nil
        with xc \<open>ys = y # ys'\<close> Cp have "y = x @ s # str_join [s] (u # us)" by simp
        with Cp(2) \<open>ys = y # ys'\<close> show ?thesis by auto
      next
        case (Cons v vs)
        with xc \<open>ys = y # ys'\<close> Cp(3)
        have e: "x @ s # str_join [s] xs = y @ s # str_join [s] ys'" by simp
        from Cp(1) have nx: "s \<notin> set x" by simp
        from Cp(2) \<open>ys = y # ys'\<close> have ny: "s \<notin> set y" by simp
        from append_sep_eq [OF nx ny e] have xy: "x = y" and r: "str_join [s] xs = str_join [s] ys'"
          by simp_all
        from Cp(1) have p1: "\<forall>w\<in>set xs. w \<noteq> [] \<and> s \<notin> set w" by simp
        from Cp(2) \<open>ys = y # ys'\<close> have p2: "\<forall>w\<in>set ys'. w \<noteq> [] \<and> s \<notin> set w" by simp
        from CIH [OF p1 p2 r] xy \<open>ys = y # ys'\<close> show ?thesis by simp
      qed
    qed
  qed
qed

subsection \<open>UTF-8 encoding is injective\<close>

lemma utf8_units_bytes: "c < 0x110000 \<Longrightarrow> b \<in> set (utf8_units c) \<Longrightarrow> b < 256"
  by (auto simp: utf8_units_def split: if_splits)

lemma utf8_units_nonempty: "utf8_units c \<noteq> []"
  by (simp add: utf8_units_def)

lemma divmod64: "(c::nat) div 64 = d div 64 \<Longrightarrow> c mod 64 = d mod 64 \<Longrightarrow> c = d"
  by (metis div_mult_mod_eq)

lemma divmod4096:
  assumes "(c::nat) div 4096 = d div 4096" "c div 64 mod 64 = d div 64 mod 64" "c mod 64 = d mod 64"
  shows "c = d"
proof -
  have "c div 64 div 64 = d div 64 div 64"
    using assms(1) by (simp add: div_mult2_eq [symmetric])
  then have "c div 64 = d div 64" using assms(2) by (rule divmod64)
  then show ?thesis using assms(3) by (rule divmod64)
qed

lemma divmod262144:
  assumes "(c::nat) div 262144 = d div 262144" "c div 4096 mod 64 = d div 4096 mod 64"
    "c div 64 mod 64 = d div 64 mod 64" "c mod 64 = d mod 64"
  shows "c = d"
proof -
  have "c div 4096 div 64 = d div 4096 div 64"
    using assms(1) by (simp add: div_mult2_eq [symmetric])
  then have "c div 4096 = d div 4096" using assms(2) by (rule divmod64)
  then show ?thesis using assms(3,4) by (rule divmod4096)
qed

lemma utf8_units_prefix_free:
  assumes "c < 0x110000" "d < 0x110000" "utf8_units c @ r = utf8_units d @ r'"
  shows "c = d \<and> r = r'"
proof -
  consider (a) "c < 128" | (b) "128 \<le> c" "c < 2048" | (c) "2048 \<le> c" "c < 65536" | (d) "65536 \<le> c"
    by linarith
  then show ?thesis
  proof cases
    case a
    with assms show ?thesis by (simp add: utf8_units_def split: if_splits)
  next
    case b
    with assms show ?thesis
      by (auto simp add: utf8_units_def split: if_splits intro: divmod64)
  next
    case c
    with assms show ?thesis
      by (auto simp add: utf8_units_def split: if_splits intro: divmod4096)
  next
    case d
    with assms show ?thesis
      by (auto simp add: utf8_units_def split: if_splits intro: divmod262144)
  qed
qed


lemma encode_utf8_units:
  "encode_utf8 a = Inr x \<Longrightarrow> (\<forall>c\<in>set a. encodable c) \<and> map unat x = concat (map utf8_units a)"
proof (induction a arbitrary: x)
  case Nil
  then show ?case by simp
next
  case (Cons c cs)
  from Cons.prems have enc: "encodable c" by (simp split: if_splits)
  with Cons.prems obtain bs where bs: "encode_utf8 cs = Inr bs"
    and x: "x = map of_nat (utf8_units c) @ bs"
    by (auto split: sum.splits)
  from enc have "c < 0x110000" by (auto simp: encodable_def)
  then have "\<forall>b\<in>set (utf8_units c). b < 256" using utf8_units_bytes by blast
  then have "map unat (map of_nat (utf8_units c) :: 8 word list) = utf8_units c"
    by (induction "utf8_units c") (auto simp: unat_of_nat map_idI)
  with Cons.IH [OF bs] enc x show ?case by simp
qed

lemma utf8_concat_inj:
  "\<forall>c\<in>set a. c < 0x110000 \<Longrightarrow> \<forall>c\<in>set b. c < 0x110000 \<Longrightarrow>
   concat (map utf8_units a) = concat (map utf8_units b) \<Longrightarrow> a = b"
proof (induction a arbitrary: b)
  case Nil
  then show ?case using utf8_units_nonempty by (cases b) auto
next
  case (Cons c cs)
  show ?case
  proof (cases b)
    case Nil
    with Cons.prems show ?thesis using utf8_units_nonempty by auto
  next
    case (Cons d ds)
    with Cons.prems have e: "utf8_units c @ concat (map utf8_units cs) =
        utf8_units d @ concat (map utf8_units ds)" by simp
    from Cons.prems Cons have "c < 0x110000" "d < 0x110000" by simp_all
    from utf8_units_prefix_free [OF this e]
    have "c = d" and r: "concat (map utf8_units cs) = concat (map utf8_units ds)" by simp_all
    moreover from Cons.prems Cons have "\<forall>c\<in>set cs. c < 0x110000" "\<forall>c\<in>set ds. c < 0x110000"
      by simp_all
    from Cons.IH [OF this r] have "cs = ds" .
    ultimately show ?thesis using Cons by simp
  qed
qed

lemma encode_utf8_inj:
  assumes "encode_utf8 a = Inr x" "encode_utf8 b = Inr x"
  shows "a = b"
proof -
  from encode_utf8_units [OF assms(1)] encode_utf8_units [OF assms(2)]
  have ea: "\<forall>c\<in>set a. encodable c" and eb: "\<forall>c\<in>set b. encodable c"
    and c: "concat (map utf8_units a) = concat (map utf8_units b)" by simp_all
  from ea have "\<forall>c\<in>set a. c < 0x110000" by (auto simp: encodable_def)
  moreover from eb have "\<forall>c\<in>set b. c < 0x110000" by (auto simp: encodable_def)
  ultimately show ?thesis using c by (rule utf8_concat_inj)
qed

lemma encode_utf8_total:
  "\<forall>c\<in>set s. encodable c \<Longrightarrow> \<exists>bs. encode_utf8 s = Inr bs"
  by (induction s) auto

lemma encode_utf8_error:
  "encode_utf8 s = Inl e \<Longrightarrow> e = UnicodeEncodeError \<and> (\<exists>c\<in>set s. \<not> encodable c)"
  by (induction s) (auto split: if_splits sum.splits)

lemma split_from_same_layout:
  "list_all2 (\<lambda>a b. a = b \<or> (\<not> isspace a \<and> \<not> isspace b)) t1 t2 \<Longrightarrow>
   length cur1 = length cur2 \<Longrightarrow> split_from cur1 t1 = split_from cur2 t2 \<Longrightarrow>
   cur1 = cur2 \<and> t1 = t2"
proof (induction t1 t2 arbitrary: cur1 cur2 rule: list_all2_induct)
  case Nil
  then show ?case by (auto split: if_splits)
next
  case (Cons a t1 b t2)
  show ?case
  proof (cases "isspace a")
    case True
    with Cons.hyps(1) have ab: "a = b" by auto
    show ?thesis
    proof (cases "cur1 = []")
      case True
      with Cons.prems(1) have c2: "cur2 = []" by simp
      with True \<open>isspace a\<close> ab Cons.prems(2) have "split_from [] t1 = split_from [] t2" by simp
      from Cons.IH [OF _ this] True c2 ab show ?thesis by simp
    next
      case False
      with Cons.prems(1) have c2: "cur2 \<noteq> []" by auto
      with False \<open>isspace a\<close> ab Cons.prems(2)
      have "cur1 = cur2" and "split_from [] t1 = split_from [] t2" by simp_all
      with Cons.IH [of "[]" "[]"] ab show ?thesis by simp
    qed
  next
    case False
    with Cons.hyps(1) have nb: "\<not> isspace b" by auto
    with False Cons.prems(2) have "split_from (cur1 @ [a]) t1 = split_from (cur2 @ [b]) t2" by simp
    from Cons.IH [OF _ this] Cons.prems(1) show ?thesis by simp
  qed
qed

lemma same_case_layout:
  assumes ws: "\<forall>c. isspace c \<longrightarrow> lower c = c" and nws: "\<forall>c. \<not> isspace c \<longrightarrow> \<not> isspace (lower c)"
    and eq: "map lower t1 = map lower t2"
  shows "list_all2 (\<lambda>a b. a = b \<or> (\<not> isspace a \<and> \<not> isspace b)) t1 t2"
proof -
  have "lower a = lower b \<Longrightarrow> a = b \<or> (\<not> isspace a \<and> \<not> isspace b)" for a b
    using ws nws by metis
  with eq show ?thesis
    by (induction t1 arbitrary: t2) (auto simp: list_all2_Cons1)
qed

lemma cleaned_case_distinct:
  assumes ws: "\<forall>c. isspace c \<longrightarrow> lower c = c" and nws: "\<forall>c. \<not> isspace c \<longrightarrow> \<not> isspace (lower c)"
    and eq: "map lower t1 = map lower t2" and ne: "t1 \<noteq> t2"
  shows "cleaned t1 \<noteq> cleaned t2"
proof
  assume c: "cleaned t1 = cleaned t2"
  have sp: "isspace 32" by (simp add: isspace_def)
  have "\<forall>w\<in>set (str_split t). w \<noteq> [] \<and> 32 \<notin> set w" for t
    using str_split_words sp by blast
  from str_join_inj [OF this this] c have "str_split t1 = str_split t2"
    by (simp add: cleaned_def)
  then have "split_from [] t1 = split_from [] t2" by (simp add: str_split_def)
  from split_from_same_layout [OF same_case_layout [OF ws nws eq] _ this] ne
  show False by simp
qed

subsection \<open>Codec and store lemmas\<close>






lemma length_frombuffer: "length b mod 4 = 0 \<Longrightarrow> 4 * length (frombuffer b) = length b"
  by (induction b rule: frombuffer.induct) auto

text \<open>The module's own constants satisfy what the theorems below ask of a configuration.\<close>

lemma default_config_ok:
  "2 \<le> MAX_ENTRIES default_config \<and> TTL_SECONDS default_config \<noteq> 0 \<and>
   MAX_ENTRIES default_config * 9 div 10 = 180000"
  by (simp add: default_config_def)

text \<open>The empty table has unique keys, and every operation on the table keeps them unique.\<close>

lemma wf_store_Nil: "wf_store []"
  by (simp add: wf_store_def)

lemma wf_store_filter: "wf_store s \<Longrightarrow> wf_store (filter P s)"
  by (simp add: wf_store_def distinct_map_filter)

lemma wf_delete_key: "wf_store s \<Longrightarrow> wf_store (delete_key k s)"
  by (simp add: delete_key_def wf_store_filter)

lemma wf_delete_keys: "wf_store s \<Longrightarrow> wf_store (delete_keys ks s)"
  by (simp add: delete_keys_def wf_store_filter)

lemma wf_insert_or_replace: "wf_store s \<Longrightarrow> wf_store (insert_or_replace r s)"
  by (auto simp: insert_or_replace_def wf_store_def distinct_map_filter)

lemma wf_store_inj: "wf_store s \<Longrightarrow> inj_on row_key (set s)"
  by (simp add: wf_store_def distinct_map)

lemma select_one_Some:
  "wf_store s \<Longrightarrow> r \<in> set s \<Longrightarrow> select_one (row_key r) s = Some r"
  unfolding select_one_def wf_store_def
  by (induction s) (auto simp: image_iff)

lemma select_one_None: "select_one k s = None \<longleftrightarrow> k \<notin> row_key ` set s"
  unfolding select_one_def by (auto simp: find_None_iff)

lemma length_delete_key:
  "wf_store s \<Longrightarrow> r \<in> set s \<Longrightarrow> length (delete_key (row_key r) s) + 1 = length s"
  unfolding delete_key_def wf_store_def
proof (induction s)
  case Nil
  then show ?case by simp
next
  case (Cons a s)
  show ?case
  proof (cases "a = r")
    case True
    with Cons.prems have "\<forall>x\<in>set s. row_key x \<noteq> row_key r" by (auto simp: image_iff)
    then have "filter (\<lambda>x. row_key x \<noteq> row_key r) s = s" by (simp add: filter_id_conv)
    with True show ?thesis by simp
  next
    case False
    with Cons.prems have "r \<in> set s" "row_key a \<noteq> row_key r" by (auto simp: image_iff)
    with Cons show ?thesis by simp
  qed
qed

lemma evict_facts:
  assumes wf: "wf_store s" and n: "n \<le> length s"
  defines "srt \<equiv> sort_key row_created_at s"
  defines "s' \<equiv> delete_keys (set (oldest_keys n s)) s"
  shows "length s' = length s - n"
    and "set s' = set (drop n srt)"
    and "set s - set s' = set (take n srt)"
    and "s' = filter (\<lambda>r. r \<notin> set (take n srt)) s"
    and "\<forall>d\<in>set (take n srt). \<forall>k\<in>set (drop n srt). row_created_at d \<le> row_created_at k"
proof -
  have set_srt: "set srt = set s" by (simp add: srt_def)
  have dist: "distinct srt" using wf by (simp add: srt_def wf_store_def distinct_map)
  have inj: "inj_on row_key (set s)" using wf by (rule wf_store_inj)
  have td: "take n srt @ drop n srt = srt" by simp
  have disj: "set (take n srt) \<inter> set (drop n srt) = {}"
    using dist td by (metis distinct_append)
  have un: "set (take n srt) \<union> set (drop n srt) = set s"
    using td set_srt by (metis set_append)
  have key_mem: "row_key r \<in> set (oldest_keys n s) \<longleftrightarrow> r \<in> set (take n srt)" if "r \<in> set s" for r
  proof
    assume "row_key r \<in> set (oldest_keys n s)"
    then obtain d where d: "d \<in> set (take n srt)" "row_key d = row_key r"
      by (auto simp: oldest_keys_def srt_def)
    with un have "d \<in> set s" by blast
    with inj that d(2) have "d = r" by (auto dest: inj_onD)
    with d show "r \<in> set (take n srt)" by simp
  next
    assume "r \<in> set (take n srt)"
    then show "row_key r \<in> set (oldest_keys n s)" by (auto simp: oldest_keys_def srt_def)
  qed
  show eq: "s' = filter (\<lambda>r. r \<notin> set (take n srt)) s"
    unfolding s'_def delete_keys_def using key_mem by (auto intro: filter_cong)
  then show s1: "set s' = set (drop n srt)" using un disj by auto
  from eq show "set s - set s' = set (take n srt)" using un by auto
  have "length s' = length (filter (\<lambda>r. r \<notin> set (take n srt)) srt)"
    unfolding eq srt_def by (metis filter_sort length_sort)
  also have "\<dots> = length (filter (\<lambda>r. r \<notin> set (take n srt)) (take n srt @ drop n srt))"
    by simp
  also have "\<dots> = length (drop n srt)"
  proof -
    have "filter (\<lambda>r. r \<notin> set (take n srt)) (take n srt) = []"
      by (simp add: filter_empty_conv)
    moreover have "filter (\<lambda>r. r \<notin> set (take n srt)) (drop n srt) = drop n srt"
      using disj by (auto simp: filter_id_conv)
    ultimately show ?thesis by (simp only: filter_append append_Nil)
  qed
  finally show "length s' = length s - n" by (simp add: srt_def)
  have "sorted (map row_created_at (take n srt @ drop n srt))"
    by (simp add: srt_def)
  then show "\<forall>d\<in>set (take n srt). \<forall>k\<in>set (drop n srt). row_created_at d \<le> row_created_at k"
    unfolding map_append sorted_append by auto
qed

subsection \<open>Key derivation\<close>

lemma encode_utf8_append:
  "encode_utf8 a = Inr x \<Longrightarrow> encode_utf8 b = Inr y \<Longrightarrow> encode_utf8 (a @ b) = Inr (x @ y)"
  by (induction a arbitrary: x) (auto split: if_splits sum.splits)

lemma base_inj:
  assumes "124 \<notin> set m1" "124 \<notin> set m2" "base t1 m1 = base t2 m2"
  shows "m1 = m2 \<and> cleaned t1 = cleaned t2"
  using append_sep_eq [OF assms(1,2)] assms(3) by (simp add: base_def)

lemma split_from_space:
  "isspace w \<Longrightarrow> split_from cur (a @ w # b) = split_from cur a @ split_from [] b"
  by (induction a arbitrary: cur) auto

lemma split_from_run:
  "ws \<noteq> [] \<Longrightarrow> \<forall>c\<in>set ws. isspace c \<Longrightarrow>
   split_from cur (a @ ws @ b) = split_from cur a @ split_from [] b"
proof (induction ws arbitrary: cur a)
  case Nil
  then show ?case by simp
next
  case (Cons w ws)
  show ?case
  proof (cases "ws = []")
    case True
    with Cons.prems show ?thesis by (simp add: split_from_space)
  next
    case False
    from Cons.prems have w: "isspace w" and ws: "\<forall>c\<in>set ws. isspace c" by simp_all
    have "split_from cur (a @ (w # ws) @ b) = split_from cur a @ split_from [] (ws @ b)"
      using split_from_space [OF w, of cur a "ws @ b"] by simp
    also have "split_from [] (ws @ b) = split_from [] b"
      using Cons.IH [OF False ws, of "[]" "[]"] by simp
    finally show ?thesis .
  qed
qed

lemma cleaned_run:
  assumes "ws1 \<noteq> []" "ws2 \<noteq> []" "\<forall>c\<in>set ws1. isspace c" "\<forall>c\<in>set ws2. isspace c"
  shows "cleaned (a @ ws1 @ b) = cleaned (a @ ws2 @ b)"
  using assms by (simp add: cleaned_def str_split_def split_from_run)

lemma cleaned_trim:
  assumes "\<forall>c\<in>set ws. isspace c"
  shows "cleaned (ws @ a) = cleaned a" and "cleaned (a @ ws) = cleaned a"
proof -
  show "cleaned (ws @ a) = cleaned a"
  proof (cases "ws = []")
    case False
    from split_from_run [OF False assms, of "[]" "[]" a] show ?thesis
      by (simp add: cleaned_def str_split_def)
  qed simp
  show "cleaned (a @ ws) = cleaned a"
  proof (cases "ws = []")
    case False
    from split_from_run [OF False assms, of "[]" a "[]"] show ?thesis
      by (simp add: cleaned_def str_split_def)
  qed simp
qed

lemma append_sep_eq_last:
  assumes "s \<notin> set r" "s \<notin> set r'" "x @ s # r = y @ s # r'"
  shows "x = y \<and> r = r'"
proof -
  from assms(3) have "rev (x @ s # r) = rev (y @ s # r')" by simp
  then have "rev r @ s # rev x = rev r' @ s # rev y" by simp
  from append_sep_eq [OF _ _ this] assms(1,2) show ?thesis by simp
qed

lemma base_inj_text:
  assumes "124 \<notin> set (cleaned t1)" "124 \<notin> set (cleaned t2)" "base t1 m1 = base t2 m2"
  shows "m1 = m2 \<and> cleaned t1 = cleaned t2"
  using append_sep_eq_last [OF assms(1,2)] assms(3) by (simp add: base_def)

text \<open>
  Claim C1. Key derivation normalizes whitespace and nothing else. Two texts with the same
  whitespace-collapsed, trimmed form \<open>cleaned\<close> get the same key under every model. Two
  different texts that differ only in letter case get different keys: \<open>lower\<close> is any
  character-wise case mapping (it leaves whitespace alone and never yields whitespace),
  the two texts agree after it, both keys are derived, and the digest does not collide on
  the two byte strings that are hashed. The last two parts say what \<open>cleaned\<close> identifies:
  a run of whitespace may be replaced by any other run, and whitespace at either end may
  be dropped, without any change of the key.
\<close>

theorem make_key_whitespace_only:
  "(cleaned t1 = cleaned t2 \<longrightarrow> make_key sha256 t1 m = make_key sha256 t2 m) \<and>
   ((\<forall>c. isspace c \<longrightarrow> lower c = c) \<and> (\<forall>c. \<not> isspace c \<longrightarrow> \<not> isspace (lower c)) \<and>
    map lower t1 = map lower t2 \<and> t1 \<noteq> t2 \<and>
    encode_utf8 (base t1 m) = Inr b1 \<and> encode_utf8 (base t2 m) = Inr b2 \<and>
    (sha256 b1 = sha256 b2 \<longrightarrow> b1 = b2)
    \<longrightarrow> make_key sha256 t1 m = Inr (sha256 b1) \<and> make_key sha256 t2 m = Inr (sha256 b2) \<and>
        sha256 b1 \<noteq> sha256 b2) \<and>
   (u \<noteq> [] \<and> v \<noteq> [] \<and> (\<forall>c\<in>set u. isspace c) \<and> (\<forall>c\<in>set v. isspace c) \<longrightarrow>
      make_key sha256 (x @ u @ y) m = make_key sha256 (x @ v @ y) m) \<and>
   ((\<forall>c\<in>set w. isspace c) \<longrightarrow>
      make_key sha256 (w @ x) m = make_key sha256 x m \<and>
      make_key sha256 (x @ w) m = make_key sha256 x m)"
proof (intro conjI impI)
  assume "cleaned t1 = cleaned t2"
  then show "make_key sha256 t1 m = make_key sha256 t2 m"
    by (simp add: make_key_def base_def)
next
  assume "u \<noteq> [] \<and> v \<noteq> [] \<and> (\<forall>c\<in>set u. isspace c) \<and> (\<forall>c\<in>set v. isspace c)"
  then have "cleaned (x @ u @ y) = cleaned (x @ v @ y)" by (intro cleaned_run) simp_all
  then show "make_key sha256 (x @ u @ y) m = make_key sha256 (x @ v @ y) m"
    by (simp add: make_key_def base_def)
next
  assume "\<forall>c\<in>set w. isspace c"
  then have "cleaned (w @ x) = cleaned x" "cleaned (x @ w) = cleaned x"
    by (rule cleaned_trim)+
  then show "make_key sha256 (w @ x) m = make_key sha256 x m"
    "make_key sha256 (x @ w) m = make_key sha256 x m"
    by (simp_all add: make_key_def base_def)
next
  assume a: "(\<forall>c. isspace c \<longrightarrow> lower c = c) \<and> (\<forall>c. \<not> isspace c \<longrightarrow> \<not> isspace (lower c)) \<and>
    map lower t1 = map lower t2 \<and> t1 \<noteq> t2 \<and>
    encode_utf8 (base t1 m) = Inr b1 \<and> encode_utf8 (base t2 m) = Inr b2 \<and>
    (sha256 b1 = sha256 b2 \<longrightarrow> b1 = b2)"
  then show "make_key sha256 t1 m = Inr (sha256 b1)" "make_key sha256 t2 m = Inr (sha256 b2)"
    by (simp_all add: make_key_def)
  from a have "cleaned t1 \<noteq> cleaned t2" using cleaned_case_distinct [of lower t1 t2] by blast
  then have "base t1 m \<noteq> base t2 m" by (simp add: base_def)
  with a have "b1 \<noteq> b2" using encode_utf8_inj by blast
  with a show "sha256 b1 \<noteq> sha256 b2" by blast
qed

lemma ex_isspace: "\<forall>c. isspace c \<longrightarrow> (if 65 \<le> c \<and> c \<le> 90 then c + 32 else c) = c"
  by (auto simp: isspace_def)

lemma ex_nonspace: "\<forall>c. \<not> isspace c \<longrightarrow> \<not> isspace (if 65 \<le> c \<and> c \<le> 90 then c + 32 else c)"
  by (auto simp: isspace_def)

text \<open>
  The texts \<open>" Ha \tL"\<close> and \<open>"Ha\nL "\<close> get one key under model \<open>"m"\<close>; the texts
  \<open>"Ha"\<close> and \<open>"ha"\<close> get two, with the ASCII lowering as case mapping.
\<close>

theorem make_key_whitespace_only_witness:
  "cleaned [32, 72, 97, 32, 9, 76] = cleaned [72, 97, 10, 76, 32] \<and>
   make_key example_digest [32, 72, 97, 32, 9, 76] [109] = make_key example_digest [72, 97, 10, 76, 32] [109] \<and>
   map (\<lambda>c. if 65 \<le> c \<and> c \<le> 90 then c + 32 else c) [72, 97 :: nat] = map (\<lambda>c. if 65 \<le> c \<and> c \<le> 90 then c + 32 else c) [104, 97] \<and>
   make_key example_digest [72, 97] [109] = Inr (example_digest [109, 124, 72, 97]) \<and>
   make_key example_digest [104, 97] [109] = Inr (example_digest [109, 124, 104, 97]) \<and>
   example_digest [109, 124, 72, 97] \<noteq> example_digest [109, 124, 104, 97] \<and>
   make_key example_digest ([72, 97] @ [32, 9] @ [76]) [109] =
     make_key example_digest ([72, 97] @ [10] @ [76]) [109] \<and>
   make_key example_digest ([32, 9] @ [72, 97]) [109] = make_key example_digest [72, 97] [109] \<and>
   make_key example_digest ([72, 97] @ [32, 9]) [109] = make_key example_digest [72, 97] [109]"
proof -
  have c: "cleaned [32, 72, 97, 32, 9, 76] = cleaned [72, 97, 10, 76, 32]"
    by (simp add: cleaned_def str_split_def isspace_def)
  have l: "map (\<lambda>c. if 65 \<le> c \<and> c \<le> 90 then c + 32 else c) [72, 97 :: nat] = map (\<lambda>c. if 65 \<le> c \<and> c \<le> 90 then c + 32 else c) [104, 97]"
    by simp
  have e1: "encode_utf8 (base [72, 97] [109]) = Inr [109, 124, 72, 97]"
    by (simp add: base_def cleaned_def str_split_def isspace_def encodable_def utf8_units_def)
  have e2: "encode_utf8 (base [104, 97] [109]) = Inr [109, 124, 104, 97]"
    by (simp add: base_def cleaned_def str_split_def isspace_def encodable_def utf8_units_def)
  have h: "example_digest [109, 124, 72, 97] = example_digest [109, 124, 104, 97] \<longrightarrow>
      [109, 124, 72, 97] = ([109, 124, 104, 97] :: bytes)"
    by (simp add: example_digest_def)
  note k = make_key_whitespace_only [of "[32, 72, 97, 32, 9, 76]" "[72, 97, 10, 76, 32]" example_digest "[109]",
      THEN conjunct1, THEN mp, OF c]
  have hyp: "(\<forall>c. isspace c \<longrightarrow> (if 65 \<le> c \<and> c \<le> 90 then c + 32 else c) = c) \<and>
    (\<forall>c. \<not> isspace c \<longrightarrow> \<not> isspace (if 65 \<le> c \<and> c \<le> 90 then c + 32 else c)) \<and>
    map (\<lambda>c. if 65 \<le> c \<and> c \<le> 90 then c + 32 else c) [72, 97 :: nat] =
      map (\<lambda>c. if 65 \<le> c \<and> c \<le> 90 then c + 32 else c) [104, 97] \<and>
    [72, 97] \<noteq> [104, 97 :: nat] \<and>
    encode_utf8 (base [72, 97] [109]) = Inr [109, 124, 72, 97] \<and>
    encode_utf8 (base [104, 97] [109]) = Inr [109, 124, 104, 97] \<and>
    (example_digest [109, 124, 72, 97] = example_digest [109, 124, 104, 97] \<longrightarrow>
      [109, 124, 72, 97] = ([109, 124, 104, 97] :: bytes))"
    using ex_isspace ex_nonspace l e1 e2 h by (intro conjI) simp_all
  note r = make_key_whitespace_only [of "[72, 97]" "[104, 97]" example_digest "[109]"
      "\<lambda>c. if 65 \<le> c \<and> c \<le> 90 then c + 32 else c" "[109, 124, 72, 97]" "[109, 124, 104, 97]",
      THEN conjunct2, THEN conjunct1, THEN mp, OF hyp]
  have runs: "[32, 9] \<noteq> [] \<and> [10] \<noteq> [] \<and> (\<forall>c\<in>set [32, 9]. isspace c) \<and> (\<forall>c\<in>set [10]. isspace c)"
    by (simp add: isspace_def)
  have ends: "\<forall>c\<in>set [32, 9]. isspace c" by (simp add: isspace_def)
  note p = make_key_whitespace_only [of _ _ example_digest "[109]" _ _ _ "[32, 9]" "[10]" "[72, 97]" "[76]",
      THEN conjunct2, THEN conjunct2, THEN conjunct1, THEN mp, OF runs]
  note q = make_key_whitespace_only [of _ _ example_digest "[109]" _ _ _ _ _ "[72, 97]" _ "[32, 9]",
      THEN conjunct2, THEN conjunct2, THEN conjunct2, THEN mp, OF ends]
  show ?thesis using c k l r p q by (intro conjI) simp_all
qed

text \<open>
  Claim C6, as stated, fails: the bar that separates the model from the text may occur in
  both. Model \<open>"a|b"\<close> with text \<open>"c"\<close> and model \<open>"a"\<close> with text \<open>"b|c"\<close> are
  different pairs with the same bytes \<open>"a|b|c"\<close> in front of the digest.
\<close>

theorem base_separator_counterexample:
  "([97, 124, 98], cleaned [99]) \<noteq> ([97], cleaned [98, 124, 99]) \<and>
   encode_utf8 (base [99] [97, 124, 98]) = Inr [97, 124, 98, 124, 99] \<and>
   encode_utf8 (base [98, 124, 99] [97]) = Inr [97, 124, 98, 124, 99]"
  by (simp add: base_def cleaned_def str_split_def isspace_def encodable_def utf8_units_def)

text \<open>
  Claim C6, amended. The digest is applied to the UTF-8 bytes of the model, the byte
  \<open>0x7C\<close> of the bar, and the UTF-8 bytes of the normalized text. For two pairs whose
  models contain no bar, or whose normalized texts contain no bar, different
  (model, normalized text) components give different byte strings, and different keys
  unless the digest collides on these two inputs.
\<close>

theorem key_distinctness:
  "(encode_utf8 model = Inr bm \<and> encode_utf8 (cleaned text) = Inr bc \<longrightarrow>
      make_key sha256 text model = Inr (sha256 (bm @ [124] @ bc))) \<and>
   (((124 \<notin> set m1 \<and> 124 \<notin> set m2) \<or> (124 \<notin> set (cleaned t1) \<and> 124 \<notin> set (cleaned t2))) \<and>
    (m1, cleaned t1) \<noteq> (m2, cleaned t2) \<and>
    encode_utf8 (base t1 m1) = Inr b1 \<and> encode_utf8 (base t2 m2) = Inr b2 \<longrightarrow>
      b1 \<noteq> b2 \<and>
      ((sha256 b1 = sha256 b2 \<longrightarrow> b1 = b2) \<longrightarrow> make_key sha256 t1 m1 \<noteq> make_key sha256 t2 m2))"
proof (intro conjI impI)
  assume a: "encode_utf8 model = Inr bm \<and> encode_utf8 (cleaned text) = Inr bc"
  have "encode_utf8 [124] = Inr [124]" by (simp add: encodable_def utf8_units_def)
  from encode_utf8_append [OF this conjunct2 [OF a]]
  have "encode_utf8 ([124] @ cleaned text) = Inr ([124] @ bc)" .
  from encode_utf8_append [OF conjunct1 [OF a] this]
  have "encode_utf8 (model @ [124] @ cleaned text) = Inr (bm @ [124] @ bc)" .
  then show "make_key sha256 text model = Inr (sha256 (bm @ [124] @ bc))"
    by (simp add: make_key_def base_def)
next
  assume a: "((124 \<notin> set m1 \<and> 124 \<notin> set m2) \<or> (124 \<notin> set (cleaned t1) \<and> 124 \<notin> set (cleaned t2))) \<and>
    (m1, cleaned t1) \<noteq> (m2, cleaned t2) \<and>
    encode_utf8 (base t1 m1) = Inr b1 \<and> encode_utf8 (base t2 m2) = Inr b2"
  then have "base t1 m1 \<noteq> base t2 m2"
    using base_inj [of m1 m2 t1 t2] base_inj_text [of t1 t2 m1 m2] by auto
  with a show ne: "b1 \<noteq> b2" using encode_utf8_inj by blast
  assume "sha256 b1 = sha256 b2 \<longrightarrow> b1 = b2"
  with ne a show "make_key sha256 t1 m1 \<noteq> make_key sha256 t2 m2"
    by (auto simp: make_key_def)
qed

text \<open>
  The key of \<open>"a  b"\<close> under model \<open>"m"\<close> is the digest of \<open>"m|a b"\<close>; the text
  \<open>"a"\<close> gets different keys under the models \<open>"m"\<close> and \<open>"n"\<close>.
\<close>

theorem key_distinctness_witness:
  "encode_utf8 [109] = Inr [109] \<and> encode_utf8 (cleaned [97, 32, 32, 98]) = Inr [97, 32, 98] \<and>
   make_key example_digest [97, 32, 32, 98] [109] = Inr (example_digest ([109] @ [124] @ [97, 32, 98])) \<and>
   124 \<notin> set [109 :: nat] \<and> 124 \<notin> set [110 :: nat] \<and>
   ([109 :: nat], cleaned [97]) \<noteq> ([110], cleaned [97]) \<and>
   encode_utf8 (base [97] [109]) = Inr [109, 124, 97] \<and>
   encode_utf8 (base [97] [110]) = Inr [110, 124, 97] \<and>
   make_key example_digest [97] [109] \<noteq> make_key example_digest [97] [110]"
proof -
  have m: "encode_utf8 [109] = Inr [109]" by (simp add: encodable_def utf8_units_def)
  have c: "encode_utf8 (cleaned [97, 32, 32, 98]) = Inr [97, 32, 98]"
    by (simp add: cleaned_def str_split_def isspace_def encodable_def utf8_units_def)
  have n: "124 \<notin> set [109 :: nat]" "124 \<notin> set [110 :: nat]" by simp_all
  have d: "([109 :: nat], cleaned [97]) \<noteq> ([110], cleaned [97])" by simp
  have e1: "encode_utf8 (base [97] [109]) = Inr [109, 124, 97]"
    by (simp add: base_def cleaned_def str_split_def isspace_def encodable_def utf8_units_def)
  have e2: "encode_utf8 (base [97] [110]) = Inr [110, 124, 97]"
    by (simp add: base_def cleaned_def str_split_def isspace_def encodable_def utf8_units_def)
  have h: "example_digest [109, 124, 97] = example_digest [110, 124, 97] \<longrightarrow>
      [109, 124, 97] = ([110, 124, 97] :: bytes)"
    by (simp add: example_digest_def)
  have hyp1: "encode_utf8 [109] = Inr [109] \<and> encode_utf8 (cleaned [97, 32, 32, 98]) = Inr [97, 32, 98]"
    using m c by (rule conjI)
  have n': "(124 \<notin> set [109 :: nat] \<and> 124 \<notin> set [110 :: nat]) \<or>
      (124 \<notin> set (cleaned [97]) \<and> 124 \<notin> set (cleaned [97]))"
    using n by (intro disjI1 conjI)
  have hyp2: "((124 \<notin> set [109 :: nat] \<and> 124 \<notin> set [110 :: nat]) \<or>
      (124 \<notin> set (cleaned [97]) \<and> 124 \<notin> set (cleaned [97]))) \<and>
    ([109 :: nat], cleaned [97]) \<noteq> ([110], cleaned [97]) \<and>
    encode_utf8 (base [97] [109]) = Inr [109, 124, 97] \<and>
    encode_utf8 (base [97] [110]) = Inr [110, 124, 97]"
    using n' d e1 e2 by (intro conjI)
  note t = key_distinctness [of "[109]" "[109]" "[97, 32, 32, 98]" "[97, 32, 98]" example_digest
      "[109]" "[110]" "[97]" "[97]" "[109, 124, 97]" "[110, 124, 97]"]
  note k = t [THEN conjunct1, THEN mp, OF hyp1]
  note r = t [THEN conjunct2, THEN mp, OF hyp2, THEN conjunct2, THEN mp, OF h]
  show ?thesis using m c k n d e1 e2 r by (intro conjI)
qed

subsection \<open>Vector codec\<close>


































subsection \<open>Single lookup\<close>

lemma get_stored:
  assumes "wf_store s" "make_key sha256 text model = Inr key" "r \<in> set s" "row_key r = key"
  shows "get_embedding_from_cache cfg sha256 of_f32 fsub now text model s =
     (if expired cfg fsub now r then (Inr None, delete_key key s)
      else (case deserialize_emb of_f32 (row_emb r) of
              Inl e \<Rightarrow> (Inl e, s)
            | Inr v \<Rightarrow> (Inr (Some v), s)))"
  using assms select_one_Some [of s r] by (simp add: get_embedding_from_cache_def)

lemma get_preserves_wf:
  "wf_store s \<Longrightarrow> wf_store (snd (get_embedding_from_cache cfg sha256 of_f32 fsub now text model s))"
  by (auto simp: get_embedding_from_cache_def wf_delete_key split: sum.splits option.splits)

text \<open>
  Claim C3. With a non-zero \<^verbatim>\<open>TTL_SECONDS\<close>, a stored row is expired exactly when
  \<open>now - created_at\<close> is strictly greater than \<^verbatim>\<open>TTL_SECONDS\<close>, where the difference
  is the number \<open>fsub now created_at\<close> that the floating-point subtraction of the code
  gives. A lookup of an expired row returns absent and deletes that row, so the store has
  one row less; a lookup of a row with \<open>now - created_at \<le> TTL_SECONDS\<close> returns its
  decoded vector and leaves the store as it is.
\<close>

theorem get_ttl_expiry:
  assumes "wf_store s" and "TTL_SECONDS cfg \<noteq> 0"
    and "make_key sha256 text model = Inr key" and "r \<in> set s" and "row_key r = key"
  shows "(expired cfg fsub now r \<longleftrightarrow> fsub now (row_created_at r) > TTL_SECONDS cfg) \<and>
    (fsub now (row_created_at r) > TTL_SECONDS cfg \<longrightarrow>
       get_embedding_from_cache cfg sha256 of_f32 fsub now text model s = (Inr None, delete_key key s) \<and>
       r \<notin> set (delete_key key s) \<and> length (delete_key key s) + 1 = length s) \<and>
    (fsub now (row_created_at r) \<le> TTL_SECONDS cfg \<and> length (row_emb r) mod 4 = 0 \<longrightarrow>
       get_embedding_from_cache cfg sha256 of_f32 fsub now text model s =
         (Inr (Some (map of_f32 (frombuffer (row_emb r)))), s))"
proof (intro conjI impI)
  show e: "expired cfg fsub now r \<longleftrightarrow> fsub now (row_created_at r) > TTL_SECONDS cfg"
    using assms(2) by (simp add: expired_def)
  {
    assume "fsub now (row_created_at r) > TTL_SECONDS cfg"
    with e have "expired cfg fsub now r" by simp
    then show "get_embedding_from_cache cfg sha256 of_f32 fsub now text model s = (Inr None, delete_key key s)"
      by (simp add: get_stored [OF assms(1,3,4,5)])
    show "r \<notin> set (delete_key key s)" using assms(5) by (simp add: delete_key_def)
    show "length (delete_key key s) + 1 = length s"
      using length_delete_key [OF assms(1,4)] assms(5) by simp
  }
  assume "fsub now (row_created_at r) \<le> TTL_SECONDS cfg \<and> length (row_emb r) mod 4 = 0"
  with e have "\<not> expired cfg fsub now r" "length (row_emb r) mod 4 = 0" by simp_all
  then show "get_embedding_from_cache cfg sha256 of_f32 fsub now text model s =
         (Inr (Some (map of_f32 (frombuffer (row_emb r)))), s)"
    by (simp add: get_stored [OF assms(1,3,4,5)] deserialize_emb_def)
qed

lemma example_key: "make_key example_digest [97] [109] = Inr (example_digest [109, 124, 97])"
  by (simp add: make_key_def base_def cleaned_def str_split_def isspace_def encodable_def
      utf8_units_def)

text \<open>
  A row written at time 0 under the default 30 days: at \<open>2592001\<close> it is absent and
  deleted, at exactly \<open>2592000\<close> it is still returned. The differences \<open>2592001 - 0\<close>
  and \<open>2592000 - 0\<close> are binary64 numbers, so the floating-point subtraction is the exact
  one on them.
\<close>

theorem get_ttl_expiry_witness:
  "get_embedding_from_cache default_config example_digest (\<lambda>w. w) (\<lambda>a b. a - b) 2592001 [97] [109]
     [\<lparr>row_key = example_digest [109, 124, 97], row_model = [109], row_text = [97],
       row_emb = [0, 0, 128, 63], row_created_at = 0\<rparr>] = (Inr None, []) \<and>
   get_embedding_from_cache default_config example_digest (\<lambda>w. w) (\<lambda>a b. a - b) 2592000 [97] [109]
     [\<lparr>row_key = example_digest [109, 124, 97], row_model = [109], row_text = [97],
       row_emb = [0, 0, 128, 63], row_created_at = 0\<rparr>] =
     (Inr (Some [0x3F800000]),
      [\<lparr>row_key = example_digest [109, 124, 97], row_model = [109], row_text = [97],
        row_emb = [0, 0, 128, 63], row_created_at = 0\<rparr>])"
proof -
  define r where "r = \<lparr>row_key = example_digest [109, 124, 97], row_model = [109], row_text = [97],
       row_emb = [0, 0, 128, 63], row_created_at = 0\<rparr>"
  have wf: "wf_store [r]" by (simp add: wf_store_def)
  have ttl: "TTL_SECONDS default_config \<noteq> 0" by (simp add: default_config_def)
  have mem: "r \<in> set [r]" by simp
  have k: "row_key r = example_digest [109, 124, 97]" by (simp add: r_def)
  note t = get_ttl_expiry [OF wf ttl example_key mem k]
  have old: "2592001 - row_created_at r > TTL_SECONDS default_config"
    by (simp add: r_def default_config_def)
  have new: "2592000 - row_created_at r \<le> TTL_SECONDS default_config \<and> length (row_emb r) mod 4 = 0"
    by (simp add: r_def default_config_def)
  from t [of "\<lambda>a b. a - b" 2592001 "\<lambda>w. w", THEN conjunct2, THEN conjunct1, THEN mp, OF old]
  have a: "get_embedding_from_cache default_config example_digest (\<lambda>w. w) (\<lambda>a b. a - b) 2592001 [97] [109] [r] =
      (Inr None, [])"
    by (simp add: delete_key_def k)
  from t [of "\<lambda>a b. a - b" 2592000 "\<lambda>w. w", THEN conjunct2, THEN conjunct2, THEN mp, OF new]
  have b: "get_embedding_from_cache default_config example_digest (\<lambda>w. w) (\<lambda>a b. a - b) 2592000 [97] [109] [r] =
      (Inr (Some [0x3F800000]), [r])"
    by (simp add: r_def f32_of_bytes_def)
  from a b show ?thesis unfolding r_def by (rule conjI)
qed

text \<open>
  Claim C7, as stated, fails in its second part: the lookup has no handler around the
  decoding. A fresh row whose blob has three bytes makes the lookup raise
  \<^verbatim>\<open>ValueError\<close> instead of returning absent.
\<close>

theorem malformed_blob_counterexample:
  "length (row_emb \<lparr>row_key = example_digest [109, 124, 97], row_model = [109], row_text = [97],
       row_emb = [0, 0, 0], row_created_at = 0\<rparr>) mod 4 \<noteq> 0 \<and>
   get_embedding_from_cache default_config example_digest (\<lambda>w. w) (\<lambda>a b. a - b) 1 [97] [109]
     [\<lparr>row_key = example_digest [109, 124, 97], row_model = [109], row_text = [97],
       row_emb = [0, 0, 0], row_created_at = 0\<rparr>] =
     (Inl ValueError,
      [\<lparr>row_key = example_digest [109, 124, 97], row_model = [109], row_text = [97],
        row_emb = [0, 0, 0], row_created_at = 0\<rparr>])"
  by (simp add: get_embedding_from_cache_def example_key select_one_def expired_def
      default_config_def deserialize_emb_def)

text \<open>
  Claim C7, amended. Decoding a byte string whose length is not a multiple of 4 raises
  \<^verbatim>\<open>ValueError\<close>. When the blob of a stored row has such a length, the lookup of that
  row raises the same error and leaves the store unchanged, unless the row is expired: an
  expired row is deleted and reported absent before any decoding.
\<close>

theorem malformed_blob_propagates:
  "(length b mod 4 \<noteq> 0 \<longrightarrow> deserialize_emb of_f32 b = Inl ValueError) \<and>
   (wf_store s \<and> make_key sha256 text model = Inr key \<and> r \<in> set s \<and> row_key r = key \<and>
    length (row_emb r) mod 4 \<noteq> 0 \<longrightarrow>
      get_embedding_from_cache cfg sha256 of_f32 fsub now text model s =
        (if expired cfg fsub now r then (Inr None, delete_key key s) else (Inl ValueError, s)))"
proof (intro conjI impI)
  assume "length b mod 4 \<noteq> 0"
  then show "deserialize_emb of_f32 b = Inl ValueError" by (simp add: deserialize_emb_def)
next
  assume a: "wf_store s \<and> make_key sha256 text model = Inr key \<and> r \<in> set s \<and> row_key r = key \<and>
    length (row_emb r) mod 4 \<noteq> 0"
  then have "get_embedding_from_cache cfg sha256 of_f32 fsub now text model s =
     (if expired cfg fsub now r then (Inr None, delete_key key s)
      else (case deserialize_emb of_f32 (row_emb r) of
              Inl e \<Rightarrow> (Inl e, s)
            | Inr v \<Rightarrow> (Inr (Some v), s)))"
    by (intro get_stored) simp_all
  with a show "get_embedding_from_cache cfg sha256 of_f32 fsub now text model s =
        (if expired cfg fsub now r then (Inr None, delete_key key s) else (Inl ValueError, s))"
    by (simp add: deserialize_emb_def)
qed

text \<open>The row with the three-byte blob, looked up while fresh and after its expiry.\<close>

theorem malformed_blob_propagates_witness:
  "length [0, 0, 0 :: 8 word] mod 4 \<noteq> 0 \<and>
   deserialize_emb (\<lambda>w. w) [0, 0, 0] = Inl ValueError \<and>
   get_embedding_from_cache default_config example_digest (\<lambda>w. w) (\<lambda>a b. a - b) 1 [97] [109]
     [\<lparr>row_key = example_digest [109, 124, 97], row_model = [109], row_text = [97],
       row_emb = [0, 0, 0], row_created_at = 0\<rparr>] =
     (Inl ValueError,
      [\<lparr>row_key = example_digest [109, 124, 97], row_model = [109], row_text = [97],
        row_emb = [0, 0, 0], row_created_at = 0\<rparr>]) \<and>
   get_embedding_from_cache default_config example_digest (\<lambda>w. w) (\<lambda>a b. a - b) 2592001 [97] [109]
     [\<lparr>row_key = example_digest [109, 124, 97], row_model = [109], row_text = [97],
       row_emb = [0, 0, 0], row_created_at = 0\<rparr>] = (Inr None, [])"
proof -
  define r where "r = \<lparr>row_key = example_digest [109, 124, 97], row_model = [109], row_text = [97],
       row_emb = [0, 0, 0], row_created_at = 0\<rparr>"
  have l: "length [0, 0, 0 :: 8 word] mod 4 \<noteq> 0" by simp
  have hyp: "wf_store [r] \<and> make_key example_digest [97] [109] = Inr (example_digest [109, 124, 97]) \<and>
      r \<in> set [r] \<and> row_key r = example_digest [109, 124, 97] \<and> length (row_emb r) mod 4 \<noteq> 0"
    using example_key by (simp add: wf_store_def r_def)
  note d = malformed_blob_propagates [of "[0, 0, 0]" "\<lambda>w. w :: 32 word",
      THEN conjunct1, THEN mp, OF l]
  note g = malformed_blob_propagates [of _ "\<lambda>w. w :: 32 word" _ _ _ _ _ _ default_config "\<lambda>a b. a - b",
      THEN conjunct2, THEN mp, OF hyp]
  have a: "get_embedding_from_cache default_config example_digest (\<lambda>w. w) (\<lambda>a b. a - b) 1 [97] [109] [r] =
      (Inl ValueError, [r])"
    using g [of 1] by (simp add: expired_def default_config_def r_def)
  have b: "get_embedding_from_cache default_config example_digest (\<lambda>w. w) (\<lambda>a b. a - b) 2592001 [97] [109] [r] =
      (Inr None, [])"
    using g [of 2592001] by (simp add: expired_def default_config_def r_def delete_key_def)
  from l d a b show ?thesis unfolding r_def by (intro conjI)
qed

subsection \<open>Insertion and eviction\<close>

lemma put_result:
  assumes "make_key sha256 text model = Inr key"
    and "s1 = insert_or_replace \<lparr>row_key = key, row_model = model, row_text = take 2000 text,
            row_emb = serialize_emb to_f32 emb, row_created_at = now\<rparr> s"
  shows "put_embedding_in_cache cfg sha256 to_f32 now text model emb s =
    (Inr (), if length s1 > MAX_ENTRIES cfg
             then delete_keys (set (oldest_keys (length s1 - MAX_ENTRIES cfg * 9 div 10) s1)) s1
             else s1)"
  using assms by (simp add: put_embedding_in_cache_def Let_def)

text \<open>
  Claim C2. Let \<open>s1\<close> be the table after the insert-or-replace of a call of
  \<^verbatim>\<open>put_embedding_in_cache\<close> and \<open>N\<close> its length. If \<open>N \<le> MAX_ENTRIES\<close> the eviction does
  nothing. Otherwise exactly \<open>N - MAX_ENTRIES * 9 div 10\<close> rows are deleted, the other rows
  stay as they are, and no deleted row is newer than a row that stays. In both cases the
  table that the call leaves holds at most \<^verbatim>\<open>MAX_ENTRIES\<close> rows (exactly
  \<open>MAX_ENTRIES * 9 div 10\<close> after an eviction) with pairwise different keys.
\<close>

theorem put_eviction:
  assumes "wf_store s" and "make_key sha256 text model = Inr key"
    and "s1 = insert_or_replace \<lparr>row_key = key, row_model = model, row_text = take 2000 text,
            row_emb = serialize_emb to_f32 emb, row_created_at = now\<rparr> s"
    and "put_embedding_in_cache cfg sha256 to_f32 now text model emb s = (res, s')"
  shows "(length s1 \<le> MAX_ENTRIES cfg \<longrightarrow> s' = s1) \<and>
    (length s1 > MAX_ENTRIES cfg \<longrightarrow>
       length s1 - length s' = length s1 - MAX_ENTRIES cfg * 9 div 10 \<and>
       length s' = MAX_ENTRIES cfg * 9 div 10 \<and>
       s' = filter (\<lambda>r. r \<in> set s') s1 \<and>
       (\<forall>d\<in>set s1 - set s'. \<forall>k\<in>set s'. row_created_at d \<le> row_created_at k)) \<and>
    length s' \<le> MAX_ENTRIES cfg \<and> wf_store s'"
proof -
  let ?n = "length s1 - MAX_ENTRIES cfg * 9 div 10"
  let ?srt = "sort_key row_created_at s1"
  have wf1: "wf_store s1" using assms(1,3) by (simp add: wf_insert_or_replace)
  have s': "s' = (if length s1 > MAX_ENTRIES cfg
             then delete_keys (set (oldest_keys ?n s1)) s1 else s1)"
    using put_result [OF assms(2,3), of cfg] assms(4) by simp
  show ?thesis
  proof (cases "length s1 > MAX_ENTRIES cfg")
    case False
    with s' wf1 show ?thesis by simp
  next
    case True
    then have s'': "s' = delete_keys (set (oldest_keys ?n s1)) s1" using s' by simp
    have n: "?n \<le> length s1" by simp
    have cut: "MAX_ENTRIES cfg * 9 div 10 \<le> MAX_ENTRIES cfg" by simp
    note f = evict_facts [OF wf1 n, folded s'']
    have len: "length s' = MAX_ENTRIES cfg * 9 div 10" using f(1) True cut by simp
    have flt: "s' = filter (\<lambda>r. r \<in> set s') s1"
    proof -
      have "r \<in> set s1 \<Longrightarrow> (r \<notin> set (take ?n ?srt)) = (r \<in> set s')" for r
        using f(3) by blast
      then have "filter (\<lambda>r. r \<notin> set (take ?n ?srt)) s1 = filter (\<lambda>r. r \<in> set s') s1"
        by (intro filter_cong) simp_all
      with f(4) show ?thesis by simp
    qed
    have old: "\<forall>d\<in>set s1 - set s'. \<forall>k\<in>set s'. row_created_at d \<le> row_created_at k"
    proof (intro ballI)
      fix d k assume "d \<in> set s1 - set s'" "k \<in> set s'"
      then have "d \<in> set (take ?n ?srt)" "k \<in> set (drop ?n ?srt)"
        using f(2,3) by blast+
      then show "row_created_at d \<le> row_created_at k" using f(5) by blast
    qed
    have "wf_store s'" unfolding s'' using wf1 by (rule wf_delete_keys)
    with True len flt old cut show ?thesis by simp
  qed
qed

text \<open>
  Claim C10. If the timestamp written for the inserted row is strictly greater than the
  timestamp of every other row, the eviction of the same call does not delete the inserted
  row: the rows it deletes are a slice of the oldest rows, each strictly older than the
  inserted one, and all other rows stay unchanged. The cap is at least 2, as is the
  module's 200000; under a cap of 0 or 1 the eviction keeps no row at all.
\<close>

theorem put_keeps_inserted:
  assumes "wf_store s" and "make_key sha256 text model = Inr key"
    and "new = \<lparr>row_key = key, row_model = model, row_text = take 2000 text,
            row_emb = serialize_emb to_f32 emb, row_created_at = now\<rparr>"
    and "\<forall>r\<in>set s. row_key r \<noteq> key \<longrightarrow> row_created_at r < now"
    and "2 \<le> MAX_ENTRIES cfg"
    and "put_embedding_in_cache cfg sha256 to_f32 now text model emb s = (res, s')"
  shows "new \<in> set s' \<and>
    (\<exists>n. s' = filter (\<lambda>r. r \<notin> set (take n (sort_key row_created_at (insert_or_replace new s))))
                (insert_or_replace new s)) \<and>
    (\<forall>d\<in>set (insert_or_replace new s) - set s'. row_created_at d < now)"
proof -
  define s1 where "s1 = insert_or_replace new s"
  let ?n = "length s1 - MAX_ENTRIES cfg * 9 div 10"
  let ?srt = "sort_key row_created_at s1"
  have s1: "s1 = insert_or_replace \<lparr>row_key = key, row_model = model, row_text = take 2000 text,
            row_emb = serialize_emb to_f32 emb, row_created_at = now\<rparr> s"
    using assms(3) by (simp add: s1_def)
  have wf1: "wf_store s1" using assms(1) by (simp add: s1_def wf_insert_or_replace)
  have new1: "new \<in> set s1" by (simp add: s1_def insert_or_replace_def)
  have others: "r \<in> set s1 \<Longrightarrow> r \<noteq> new \<Longrightarrow> row_created_at r < now" for r
    using assms(3,4) by (auto simp: s1_def insert_or_replace_def)
  have s': "s' = (if length s1 > MAX_ENTRIES cfg
             then delete_keys (set (oldest_keys ?n s1)) s1 else s1)"
    using put_result [OF assms(2) s1, of cfg] assms(6) by simp
  show ?thesis unfolding s1_def [symmetric]
  proof (cases "length s1 > MAX_ENTRIES cfg")
    case False
    then have "s' = s1" using s' by simp
    moreover have "s1 = filter (\<lambda>r. r \<notin> set (take 0 ?srt)) s1" by simp
    ultimately show "new \<in> set s' \<and>
      (\<exists>n. s' = filter (\<lambda>r. r \<notin> set (take n ?srt)) s1) \<and>
      (\<forall>d\<in>set s1 - set s'. row_created_at d < now)"
      using new1 by (metis Diff_cancel empty_iff)
  next
    case True
    then have s'': "s' = delete_keys (set (oldest_keys ?n s1)) s1" using s' by simp
    have n: "?n \<le> length s1" by simp
    note f = evict_facts [OF wf1 n, folded s'']
    have "1 \<le> MAX_ENTRIES cfg * 9 div 10" using assms(5) by linarith
    with True have "?n < length s1" by linarith
    then have "drop ?n ?srt \<noteq> []" by simp
    then have "hd (drop ?n ?srt) \<in> set (drop ?n ?srt)" by (rule hd_in_set)
    then obtain k where k: "k \<in> set (drop ?n ?srt)" by blast
    have kept: "new \<in> set s'"
    proof (rule ccontr)
      assume "new \<notin> set s'"
      with new1 f(3) have d: "new \<in> set (take ?n ?srt)" by blast
      with f(5) k have "row_created_at new \<le> row_created_at k" by blast
      then have le: "now \<le> row_created_at k" using assms(3) by simp
      from k f(2) have ks: "k \<in> set s'" by simp
      with f(3) d have "k \<noteq> new" using \<open>new \<notin> set s'\<close> by blast
      moreover from in_set_dropD [OF k] have "k \<in> set s1" by simp
      ultimately have "row_created_at k < now" by (rule others [rotated])
      with le show False by simp
    qed
    have del: "\<forall>d\<in>set s1 - set s'. row_created_at d < now"
    proof
      fix d assume d: "d \<in> set s1 - set s'"
      with kept have "d \<noteq> new" by blast
      with d show "row_created_at d < now" using others by blast
    qed
    from kept f(4) del show "new \<in> set s' \<and>
      (\<exists>n. s' = filter (\<lambda>r. r \<notin> set (take n ?srt)) s1) \<and>
      (\<forall>d\<in>set s1 - set s'. row_created_at d < now)" by blast
  qed
qed

text \<open>
  Three rows written at times 3, 1 and 2, and an insertion at time 4. Under a cap of 3 the
  rows of times 1 and 2 are evicted and two rows stay; under a cap of 4 nothing is evicted.
\<close>

theorem put_eviction_witness:
  "put_embedding_in_cache \<lparr>MAX_ENTRIES = 3, TTL_SECONDS = 10\<rparr> example_digest (\<lambda>w. w) 4 [97] [109] []
     [\<lparr>row_key = example_digest [1, 1, 1], row_model = [109], row_text = [120], row_emb = [], row_created_at = 3\<rparr>,
      \<lparr>row_key = example_digest [1], row_model = [109], row_text = [121], row_emb = [], row_created_at = 1\<rparr>,
      \<lparr>row_key = example_digest [1, 1], row_model = [109], row_text = [122], row_emb = [], row_created_at = 2\<rparr>]
   = (Inr (),
     [\<lparr>row_key = example_digest [1, 1, 1], row_model = [109], row_text = [120], row_emb = [], row_created_at = 3\<rparr>,
      \<lparr>row_key = example_digest [109, 124, 97], row_model = [109], row_text = [97], row_emb = [], row_created_at = 4\<rparr>]) \<and>
   length [\<lparr>row_key = example_digest [1, 1, 1], row_model = [109], row_text = [120], row_emb = [], row_created_at = 3\<rparr>,
      \<lparr>row_key = example_digest [109, 124, 97], row_model = [109], row_text = [97], row_emb = [], row_created_at = 4\<rparr>]
     = MAX_ENTRIES \<lparr>MAX_ENTRIES = 3, TTL_SECONDS = 10\<rparr> * 9 div 10 \<and>
   put_embedding_in_cache \<lparr>MAX_ENTRIES = 4, TTL_SECONDS = 10\<rparr> example_digest (\<lambda>w. w) 4 [97] [109] []
     [\<lparr>row_key = example_digest [1, 1, 1], row_model = [109], row_text = [120], row_emb = [], row_created_at = 3\<rparr>,
      \<lparr>row_key = example_digest [1], row_model = [109], row_text = [121], row_emb = [], row_created_at = 1\<rparr>,
      \<lparr>row_key = example_digest [1, 1], row_model = [109], row_text = [122], row_emb = [], row_created_at = 2\<rparr>]
   = (Inr (),
     [\<lparr>row_key = example_digest [1, 1, 1], row_model = [109], row_text = [120], row_emb = [], row_created_at = 3\<rparr>,
      \<lparr>row_key = example_digest [1], row_model = [109], row_text = [121], row_emb = [], row_created_at = 1\<rparr>,
      \<lparr>row_key = example_digest [1, 1], row_model = [109], row_text = [122], row_emb = [], row_created_at = 2\<rparr>,
      \<lparr>row_key = example_digest [109, 124, 97], row_model = [109], row_text = [97], row_emb = [], row_created_at = 4\<rparr>])"
proof -
  define r3 where "r3 = \<lparr>row_key = example_digest [1, 1, 1], row_model = [109], row_text = [120], row_emb = [], row_created_at = 3\<rparr>"
  define r1 where "r1 = \<lparr>row_key = example_digest [1], row_model = [109], row_text = [121], row_emb = [], row_created_at = 1\<rparr>"
  define r2 where "r2 = \<lparr>row_key = example_digest [1, 1], row_model = [109], row_text = [122], row_emb = [], row_created_at = 2\<rparr>"
  define new where "new = \<lparr>row_key = example_digest [109, 124, 97], row_model = [109], row_text = [97], row_emb = [], row_created_at = 4\<rparr>"
  note rs = r1_def r2_def r3_def new_def
  have wf: "wf_store [r3, r1, r2]" by (simp add: wf_store_def rs example_digest_def)
  have s1: "[r3, r1, r2, new] = insert_or_replace \<lparr>row_key = example_digest [109, 124, 97],
      row_model = [109], row_text = take 2000 [97],
      row_emb = serialize_emb (\<lambda>w. w :: 32 word) [], row_created_at = 4\<rparr> [r3, r1, r2]"
    by (simp add: insert_or_replace_def rs example_digest_def serialize_emb_def)
  have p3: "put_embedding_in_cache \<lparr>MAX_ENTRIES = 3, TTL_SECONDS = 10\<rparr> example_digest (\<lambda>w. w :: 32 word)
      4 [97] [109] [] [r3, r1, r2] = (Inr (), [r3, new])"
    by (simp add: put_embedding_in_cache_def Let_def example_key insert_or_replace_def
        serialize_emb_def oldest_keys_def delete_keys_def rs example_digest_def)
  have p4: "put_embedding_in_cache \<lparr>MAX_ENTRIES = 4, TTL_SECONDS = 10\<rparr> example_digest (\<lambda>w. w :: 32 word)
      4 [97] [109] [] [r3, r1, r2] = (Inr (), [r3, r1, r2, new])"
    by (simp add: put_embedding_in_cache_def Let_def example_key insert_or_replace_def
        serialize_emb_def rs example_digest_def)
  have big: "length [r3, r1, r2, new] > MAX_ENTRIES \<lparr>MAX_ENTRIES = 3, TTL_SECONDS = 10\<rparr>" by simp
  have small: "length [r3, r1, r2, new] \<le> MAX_ENTRIES \<lparr>MAX_ENTRIES = 4, TTL_SECONDS = 10\<rparr>" by simp
  note a = put_eviction [OF wf example_key s1 p3, THEN conjunct2, THEN conjunct1, THEN mp, OF big,
      THEN conjunct2, THEN conjunct1]
  note b = put_eviction [OF wf example_key s1 p4, THEN conjunct1, THEN mp, OF small]
  from p3 a p4 show ?thesis unfolding rs by (intro conjI)
qed

text \<open>The insertion at time 4 under a cap of 3: the new row is in the table afterwards.\<close>

theorem put_keeps_inserted_witness:
  "2 \<le> MAX_ENTRIES \<lparr>MAX_ENTRIES = 3, TTL_SECONDS = 10\<rparr> \<and>
   \<lparr>row_key = example_digest [109, 124, 97], row_model = [109], row_text = [97], row_emb = [], row_created_at = 4\<rparr>
     \<in> set (snd (put_embedding_in_cache \<lparr>MAX_ENTRIES = 3, TTL_SECONDS = 10\<rparr> example_digest (\<lambda>w. w) 4 [97] [109] []
     [\<lparr>row_key = example_digest [1, 1, 1], row_model = [109], row_text = [120], row_emb = [], row_created_at = 3\<rparr>,
      \<lparr>row_key = example_digest [1], row_model = [109], row_text = [121], row_emb = [], row_created_at = 1\<rparr>,
      \<lparr>row_key = example_digest [1, 1], row_model = [109], row_text = [122], row_emb = [], row_created_at = 2\<rparr>]))"
proof -
  define r3 where "r3 = \<lparr>row_key = example_digest [1, 1, 1], row_model = [109], row_text = [120], row_emb = [], row_created_at = 3\<rparr>"
  define r1 where "r1 = \<lparr>row_key = example_digest [1], row_model = [109], row_text = [121], row_emb = [], row_created_at = 1\<rparr>"
  define r2 where "r2 = \<lparr>row_key = example_digest [1, 1], row_model = [109], row_text = [122], row_emb = [], row_created_at = 2\<rparr>"
  define new where "new = \<lparr>row_key = example_digest [109, 124, 97], row_model = [109], row_text = [97], row_emb = [], row_created_at = 4\<rparr>"
  note rs = r1_def r2_def r3_def new_def
  have wf: "wf_store [r3, r1, r2]" by (simp add: wf_store_def rs example_digest_def)
  have n: "new = \<lparr>row_key = example_digest [109, 124, 97],
      row_model = [109], row_text = take 2000 [97],
      row_emb = serialize_emb (\<lambda>w. w :: 32 word) [], row_created_at = 4\<rparr>"
    by (simp add: rs serialize_emb_def)
  have older: "\<forall>r\<in>set [r3, r1, r2]. row_key r \<noteq> example_digest [109, 124, 97] \<longrightarrow> row_created_at r < 4"
    by (simp add: rs)
  have cap: "2 \<le> MAX_ENTRIES \<lparr>MAX_ENTRIES = 3, TTL_SECONDS = 10\<rparr>" by simp
  have p3: "put_embedding_in_cache \<lparr>MAX_ENTRIES = 3, TTL_SECONDS = 10\<rparr> example_digest (\<lambda>w. w :: 32 word)
      4 [97] [109] [] [r3, r1, r2] = (Inr (), [r3, new])"
    by (simp add: put_embedding_in_cache_def Let_def example_key insert_or_replace_def
        serialize_emb_def oldest_keys_def delete_keys_def rs example_digest_def)
  note a = put_keeps_inserted [OF wf example_key n older cap p3, THEN conjunct1]
  have "new \<in> set (snd (put_embedding_in_cache \<lparr>MAX_ENTRIES = 3, TTL_SECONDS = 10\<rparr> example_digest
      (\<lambda>w. w :: 32 word) 4 [97] [109] [] [r3, r1, r2]))"
    unfolding p3 snd_conv by (rule a)
  with cap show ?thesis unfolding rs by (intro conjI)
qed

subsection \<open>Batch lookup\<close>

lemma make_keys_nth:
  "make_keys sha256 texts model = Inr keys \<Longrightarrow>
   length keys = length texts \<and> (\<forall>i<length texts. make_key sha256 (texts ! i) model = Inr (keys ! i))"
proof (induction texts arbitrary: keys)
  case Nil
  then show ?case by simp
next
  case (Cons t ts)
  from Cons.prems obtain k ks where k: "make_key sha256 t model = Inr k"
    and ks: "make_keys sha256 ts model = Inr ks" and keys: "keys = k # ks"
    by (auto split: sum.splits)
  from Cons.IH [OF ks] k keys show ?case by (auto simp: nth_Cons split: nat.splits)
qed

lemma make_keys_total:
  "\<forall>t\<in>set texts. \<exists>k. make_key sha256 t model = Inr k \<Longrightarrow> \<exists>keys. make_keys sha256 texts model = Inr keys"
  by (induction texts) auto

lemma idxs_of_upd: "idxs_of (m(k' \<mapsto> v)) k = (if k = k' then v else idxs_of m k)"
  by (simp add: idxs_of_def)

lemma idxs_of_empty: "idxs_of Map.empty k = []"
  by (simp add: idxs_of_def)

lemma group_idxs_Cons:
  "group_idxs ((i, k') # ps) m = group_idxs ps (m(k' \<mapsto> idxs_of m k' @ [i]))"
  by (simp add: idxs_of_def)

lemma idxs_of_group:
  "set (idxs_of (group_idxs ps m) k) = set (idxs_of m k) \<union> {i. (i, k) \<in> set ps}"
proof (induction ps arbitrary: m)
  case Nil
  then show ?case by simp
next
  case (Cons p ps)
  obtain i k' where p: "p = (i, k')" by (cases p)
  show ?case unfolding p group_idxs_Cons Cons.IH by (auto simp: idxs_of_upd)
qed

lemma idxs_of_key_to_idxs:
  "set (idxs_of (key_to_idxs keys) k) = {i. i < length keys \<and> keys ! i = k}"
  unfolding key_to_idxs_def idxs_of_group
  by (auto simp: in_set_enumerate_eq idxs_of_empty)

lemma assign_all_apply:
  "assign_all idxs emb found i = (if i \<in> set idxs then Some emb else found i)"
  by (induction idxs arbitrary: found) auto

lemma process_rows_append:
  "process_rows cfg of_f32 fsub now k2i (a @ b) st =
     (case process_rows cfg of_f32 fsub now k2i a st of
        Inl e \<Rightarrow> Inl e
      | Inr st' \<Rightarrow> process_rows cfg of_f32 fsub now k2i b st')"
proof (induction a arbitrary: st)
  case Nil
  then show ?case by simp
next
  case (Cons r a)
  obtain found ex where st: "st = (found, ex)" by (cases st)
  show ?case unfolding st by (simp add: Cons.IH split: sum.splits)
qed

lemma found_after_Cons:
  "found_after of_f32 (r # hs) old = found_after of_f32 hs (Some (map of_f32 (frombuffer (row_emb r))))"
  by (simp add: found_after_def)

lemma hits_Cons:
  "hits cfg fsub now k2i (r # rows) i =
     (if \<not> expired cfg fsub now r \<and> i \<in> set (idxs_of k2i (row_key r)) then r # hits cfg fsub now k2i rows i
      else hits cfg fsub now k2i rows i)"
  by (simp add: hits_def)

lemma process_rows_spec:
  "process_rows cfg of_f32 fsub now k2i rows (found, ex) =
     (if \<exists>r\<in>set rows. \<not> expired cfg fsub now r \<and> length (row_emb r) mod 4 \<noteq> 0 then Inl ValueError
      else Inr (\<lambda>i. found_after of_f32 (hits cfg fsub now k2i rows i) (found i),
                ex \<union> row_key ` {r \<in> set rows. expired cfg fsub now r}))"
proof (induction rows arbitrary: found ex)
  case Nil
  then show ?case by (simp add: hits_def found_after_def)
next
  case (Cons r rows)
  show ?case
  proof (cases "expired cfg fsub now r")
    case True
    have "ex \<union> row_key ` {x \<in> set (r # rows). expired cfg fsub now x} =
        insert (row_key r) ex \<union> row_key ` {x \<in> set rows. expired cfg fsub now x}"
      using True by auto
    with True show ?thesis by (simp add: Cons.IH hits_Cons)
  next
    case False
    note ne = this
    show ?thesis
    proof (cases "length (row_emb r) mod 4 = 0")
      case False
      with ne show ?thesis by (auto simp: deserialize_emb_def)
    next
      case True
      let ?v = "map of_f32 (frombuffer (row_emb r))"
      have d: "deserialize_emb of_f32 (row_emb r) = Inr ?v"
        using True by (simp add: deserialize_emb_def)
      have f: "(\<lambda>i. found_after of_f32 (hits cfg fsub now k2i rows i)
                  (assign_all (idxs_of k2i (row_key r)) ?v found i)) =
               (\<lambda>i. found_after of_f32 (hits cfg fsub now k2i (r # rows) i) (found i))"
        using ne by (auto simp: fun_eq_iff hits_Cons found_after_Cons assign_all_apply)
      have e: "{x \<in> set (r # rows). expired cfg fsub now x} = {x \<in> set rows. expired cfg fsub now x}"
        using ne by auto
      have b: "(\<exists>x\<in>set (r # rows). \<not> expired cfg fsub now x \<and> length (row_emb x) mod 4 \<noteq> 0) =
               (\<exists>x\<in>set rows. \<not> expired cfg fsub now x \<and> length (row_emb x) mod 4 \<noteq> 0)"
        using True by auto
      show ?thesis
        unfolding process_rows.simps b e using ne d f by (simp add: Cons.IH)
    qed
  qed
qed

lemma one_key_key_to_idxs: "one_key (key_to_idxs keys)"
  by (simp add: one_key_def idxs_of_key_to_idxs)

lemma hits_select_in:
  assumes "one_key k2i"
  shows "hits cfg fsub now k2i (select_in A s) i =
     (if \<exists>r\<in>set (hits cfg fsub now k2i s i). row_key r \<in> set A then hits cfg fsub now k2i s i else [])"
proof -
  have eq: "hits cfg fsub now k2i (select_in A s) i = filter (\<lambda>r. row_key r \<in> set A) (hits cfg fsub now k2i s i)"
    by (simp add: hits_def select_in_def conj_commute)
  show ?thesis
  proof (cases "\<exists>r\<in>set (hits cfg fsub now k2i s i). row_key r \<in> set A")
    case True
    then obtain r0 where r0: "r0 \<in> set (hits cfg fsub now k2i s i)" "row_key r0 \<in> set A" by blast
    have "row_key r = row_key r0" if "r \<in> set (hits cfg fsub now k2i s i)" for r
      using that r0(1) assms unfolding one_key_def hits_def by simp blast
    with r0(2) have "filter (\<lambda>r. row_key r \<in> set A) (hits cfg fsub now k2i s i) = hits cfg fsub now k2i s i"
      by (simp add: filter_id_conv)
    with True eq show ?thesis by simp
  next
    case False
    then have "filter (\<lambda>r. row_key r \<in> set A) (hits cfg fsub now k2i s i) = []"
      by (simp add: filter_empty_conv)
    with False eq show ?thesis by simp
  qed
qed

lemma hits_append: "hits cfg fsub now k2i (a @ b) i = hits cfg fsub now k2i a i @ hits cfg fsub now k2i b i"
  by (simp add: hits_def)

lemma found_after_twice:
  "found_after of_f32 (hs @ hs) old = found_after of_f32 hs old"
  by (simp add: found_after_def)

lemma process_rows_two_selects:
  assumes "one_key k2i"
  shows "process_rows cfg of_f32 fsub now k2i (select_in A s @ select_in B s) st =
         process_rows cfg of_f32 fsub now k2i (select_in (A @ B) s) st"
proof -
  obtain found ex where st: "st = (found, ex)" by (cases st)
  have sets: "set (select_in A s @ select_in B s) = set (select_in (A @ B) s)"
    by (auto simp: select_in_def)
  have f: "found_after of_f32 (hits cfg fsub now k2i (select_in A s @ select_in B s) i) old =
           found_after of_f32 (hits cfg fsub now k2i (select_in (A @ B) s) i) old" for i old
    unfolding hits_append hits_select_in [OF assms]
    by (auto simp: found_after_twice)
  show ?thesis unfolding st process_rows_spec sets f ..
qed

lemma chunk_loop_single_query:
  assumes "one_key k2i" "0 < max_vars"
  shows "chunk_loop cfg of_f32 fsub now k2i s max_vars keys i st =
         process_rows cfg of_f32 fsub now k2i (select_in (drop i keys) s) st"
  using assms
proof (induction cfg of_f32 fsub now k2i s max_vars keys i st rule: chunk_loop.induct)
  case (1 cfg of_f32 fsub now k2i s max_vars keys i st)
  show ?case
  proof (cases "i < length keys")
    case False
    then show ?thesis using "1.prems" by (simp add: chunk_loop.simps select_in_def)
  next
    case True
    let ?chunk = "take max_vars (drop i keys)"
    have split: "drop i keys = ?chunk @ drop (i + max_vars) keys"
      by (metis add.commute append_take_drop_id drop_drop)
    have "process_rows cfg of_f32 fsub now k2i (select_in (drop i keys) s) st =
          process_rows cfg of_f32 fsub now k2i (select_in ?chunk s @ select_in (drop (i + max_vars) keys) s) st"
      using process_rows_two_selects [OF "1.prems"(1), of cfg of_f32 fsub now ?chunk s "drop (i + max_vars) keys" st]
        split by simp
    also have "\<dots> = (case process_rows cfg of_f32 fsub now k2i (select_in ?chunk s) st of
        Inl e \<Rightarrow> Inl e
      | Inr st' \<Rightarrow> process_rows cfg of_f32 fsub now k2i (select_in (drop (i + max_vars) keys) s) st')"
      by (rule process_rows_append)
    also have "\<dots> = (case process_rows cfg of_f32 fsub now k2i (select_in ?chunk s) st of
        Inl e \<Rightarrow> Inl e
      | Inr st' \<Rightarrow> chunk_loop cfg of_f32 fsub now k2i s max_vars keys (i + max_vars) st')"
      using True "1.prems" "1.IH" by (auto split: sum.splits)
    also have "\<dots> = chunk_loop cfg of_f32 fsub now k2i s max_vars keys i st"
      using True "1.prems"(2) by (subst (2) chunk_loop.simps) simp
    finally show ?thesis by simp
  qed
qed

lemma batch_chunking:
  "batch_get_embeddings cfg limit sha256 of_f32 fsub now texts model s =
   batch_get_unchunked cfg limit sha256 of_f32 fsub now texts model s"
proof -
  have "chunk_loop cfg of_f32 fsub now (key_to_idxs keys) s MAX_VARS keys 0 st =
        process_rows cfg of_f32 fsub now (key_to_idxs keys) (select_in keys s) st" for keys st
    using chunk_loop_single_query [OF one_key_key_to_idxs, of MAX_VARS cfg of_f32 fsub now keys s keys 0 st]
    by (simp add: MAX_VARS_def)
  then show ?thesis
    by (simp add: batch_get_embeddings_def batch_get_unchunked_def split: sum.splits)
qed

lemma batch_preserves_wf:
  "wf_store s \<Longrightarrow> wf_store (snd (batch_get_embeddings cfg limit sha256 of_f32 fsub now texts model s))"
  unfolding batch_chunking batch_get_unchunked_def
  by (auto simp: wf_delete_keys Let_def split: sum.splits prod.splits)

lemma batch_result:
  assumes "texts \<noteq> []" "make_keys sha256 texts model = Inr keys"
  shows "batch_get_embeddings cfg limit sha256 of_f32 fsub now texts model s =
    (if \<exists>r\<in>set (select_in keys s). \<not> expired cfg fsub now r \<and> length (row_emb r) mod 4 \<noteq> 0
     then (Inl ValueError, s)
     else if limit < card (row_key ` {r \<in> set (select_in keys s). expired cfg fsub now r})
     then (Inl OperationalError, s)
     else (Inr (\<lambda>i. found_after of_f32 (hits cfg fsub now (key_to_idxs keys) (select_in keys s) i) None,
                filter (\<lambda>i. found_after of_f32 (hits cfg fsub now (key_to_idxs keys) (select_in keys s) i) None = None)
                  [0..<length texts]),
           delete_keys (row_key ` {r \<in> set (select_in keys s). expired cfg fsub now r}) s))"
    (is "_ = (if ?bad then _ else if limit < card ?ex then _ else (Inr (?F, ?M), _))")
proof -
  have d: "(if ex \<noteq> {} then (if card ex > limit then (Inl OperationalError, s)
                             else (Inr (?F, ?M), delete_keys ex s))
            else (Inr (?F, ?M), s)) =
           (if limit < card ex then (Inl OperationalError, s)
            else (Inr (?F, ?M), delete_keys ex s))" for ex :: "string set"
    by (simp add: delete_keys_def)
  have "batch_get_unchunked cfg limit sha256 of_f32 fsub now texts model s =
      (if ?bad then (Inl ValueError, s)
       else (if ?ex \<noteq> {} then (if card ?ex > limit then (Inl OperationalError, s)
                             else (Inr (?F, ?M), delete_keys ?ex s))
            else (Inr (?F, ?M), s)))"
    unfolding batch_get_unchunked_def process_rows_spec
    using assms by (simp add: Let_def)
  then show ?thesis unfolding batch_chunking d .
qed

lemma hits_position:
  "hits cfg fsub now (key_to_idxs keys) (select_in keys s) i =
     (if i < length keys then filter (\<lambda>r. \<not> expired cfg fsub now r \<and> row_key r = keys ! i) s else [])"
proof -
  have "hits cfg fsub now (key_to_idxs keys) (select_in keys s) i =
      filter (\<lambda>r. row_key r \<in> set keys \<and> \<not> expired cfg fsub now r \<and> i < length keys \<and> keys ! i = row_key r) s"
    by (simp add: hits_def select_in_def idxs_of_key_to_idxs conj_commute conj_left_commute)
  also have "\<dots> = (if i < length keys then filter (\<lambda>r. \<not> expired cfg fsub now r \<and> row_key r = keys ! i) s else [])"
    by (auto intro: filter_cong)
  finally show ?thesis .
qed

lemma found_after_None:
  "found_after of_f32 hs None = None \<longleftrightarrow> hs = []"
  by (simp add: found_after_def)

lemma set_cleaned: "set (cleaned t) \<subseteq> insert 32 (set t)"
proof -
  have j: "set (str_join [32] ws) \<subseteq> insert 32 (\<Union> (set ` set ws))" for ws
    by (induction "[32::nat]" ws rule: str_join.induct) auto
  have s: "\<Union> (set ` set (split_from cur t)) \<subseteq> set cur \<union> set t" for cur
    by (induction cur t rule: split_from.induct) (simp, simp, blast)
  from j [of "str_split t"] s [of "[]"] show ?thesis
    unfolding cleaned_def str_split_def by auto
qed

lemma make_key_total:
  assumes "\<forall>c\<in>set text. encodable c" "\<forall>c\<in>set model. encodable c"
  shows "\<exists>k. make_key sha256 text model = Inr k"
proof -
  have "encodable 32" "encodable 124" by (simp_all add: encodable_def)
  with assms set_cleaned [of "text"] have "\<forall>c\<in>set (base text model). encodable c"
    by (auto simp: base_def)
  from encode_utf8_total [OF this] show ?thesis by (auto simp: make_key_def)
qed

lemma batch_ok_cases:
  assumes "batch_get_embeddings cfg limit sha256 of_f32 fsub now texts model s = (Inr (found, missing), s')"
  shows "(texts = [] \<and> found = Map.empty \<and> missing = [] \<and> s' = s) \<or>
    (\<exists>keys. make_keys sha256 texts model = Inr keys \<and> length keys = length texts \<and>
       found = (\<lambda>i. found_after of_f32 (if i < length keys
                  then filter (\<lambda>r. \<not> expired cfg fsub now r \<and> row_key r = keys ! i) s else []) None) \<and>
       missing = filter (\<lambda>i. found i = None) [0..<length texts] \<and>
       card (row_key ` {r \<in> set (select_in keys s). expired cfg fsub now r}) \<le> limit \<and>
       s' = delete_keys (row_key ` {r \<in> set (select_in keys s). expired cfg fsub now r}) s)"
proof (cases "texts = []")
  case True
  with assms show ?thesis by (simp add: batch_get_embeddings_def)
next
  case False
  from assms False obtain keys where keys: "make_keys sha256 texts model = Inr keys"
    by (cases "make_keys sha256 texts model") (simp_all add: batch_get_embeddings_def)
  from make_keys_nth [OF keys] have len: "length keys = length texts" by simp
  let ?F = "\<lambda>i. found_after of_f32 (hits cfg fsub now (key_to_idxs keys) (select_in keys s) i) None"
  from assms batch_result [OF False keys, of cfg limit of_f32 fsub now s]
  have f: "found = ?F" and m: "missing = filter (\<lambda>i. ?F i = None) [0..<length texts]"
    and c: "card (row_key ` {r \<in> set (select_in keys s). expired cfg fsub now r}) \<le> limit"
    and d: "s' = delete_keys (row_key ` {r \<in> set (select_in keys s). expired cfg fsub now r}) s"
    by (simp_all split: if_splits)
  from m f have m': "missing = filter (\<lambda>i. found i = None) [0..<length texts]" by simp
  from f have f': "found = (\<lambda>i. found_after of_f32 (if i < length keys
                  then filter (\<lambda>r. \<not> expired cfg fsub now r \<and> row_key r = keys ! i) s else []) None)"
    by (simp add: hits_position)
  from keys len f' m' c d show ?thesis by blast
qed

lemma expired_keys_looked_up:
  assumes "make_keys sha256 texts model = Inr keys"
  shows "row_key ` {r \<in> set (select_in keys s). expired cfg fsub now r} =
    {k. \<exists>r\<in>set s. row_key r = k \<and> expired cfg fsub now r \<and>
          (\<exists>i<length texts. make_key sha256 (texts ! i) model = Inr k)}"
proof -
  from make_keys_nth [OF assms]
  have len: "length keys = length texts"
    and nth: "\<And>i. i < length texts \<Longrightarrow> make_key sha256 (texts ! i) model = Inr (keys ! i)"
    by simp_all
  have K: "(k \<in> set keys) = (\<exists>i<length texts. make_key sha256 (texts ! i) model = Inr k)" for k
    using nth len by (auto simp: in_set_conv_nth)
  show ?thesis by (auto simp: select_in_def K)
qed

lemma card_keys_le_length:
  "card {k. \<exists>r\<in>set s. row_key r = k \<and> P r k} \<le> length s"
proof -
  have "{k. \<exists>r\<in>set s. row_key r = k \<and> P r k} \<subseteq> row_key ` set s" by auto
  then have "card {k. \<exists>r\<in>set s. row_key r = k \<and> P r k} \<le> card (row_key ` set s)"
    by (intro card_mono) simp_all
  also have "\<dots> \<le> card (set s)" by (intro card_image_le) simp
  also have "\<dots> \<le> length s" by (rule card_length)
  finally show ?thesis .
qed

text \<open>
  Claim C4. When \<^verbatim>\<open>batch_get_embeddings\<close> returns \<open>(found, missing)\<close>, every position
  \<open>0 .. len(texts) - 1\<close> is a key of \<open>found\<close> or an element of \<open>missing\<close> and never both,
  nothing else is in either, and \<open>missing\<close> is strictly ascending; positions are the unit,
  so equal texts at two positions give two entries. Empty \<open>texts\<close> give \<open>({}, [])\<close> and
  leave the store alone. The call does return when every text and the model can be
  encoded, every stored blob has a length that is a multiple of 4, and the expired keys
  that the texts address are no more than the ceiling on bound parameters admits in the
  one \<^verbatim>\<open>DELETE\<close> statement.
\<close>

theorem batch_partition:
  "(batch_get_embeddings cfg limit sha256 of_f32 fsub now texts model s = (Inr (found, missing), s') \<longrightarrow>
      dom found \<union> set missing = {0..<length texts} \<and> dom found \<inter> set missing = {} \<and>
      sorted_wrt (<) missing) \<and>
   batch_get_embeddings cfg limit sha256 of_f32 fsub now [] model s = (Inr (Map.empty, []), s) \<and>
   ((\<forall>t\<in>set texts. \<forall>c\<in>set t. encodable c) \<and> (\<forall>c\<in>set model. encodable c) \<and>
    (\<forall>r\<in>set s. length (row_emb r) mod 4 = 0) \<and> MAX_VARS \<le> limit \<and>
    card {k. \<exists>r\<in>set s. row_key r = k \<and> expired cfg fsub now r \<and>
               (\<exists>i<length texts. make_key sha256 (texts ! i) model = Inr k)} \<le> limit \<longrightarrow>
      (\<exists>found missing s'.
         batch_get_embeddings cfg limit sha256 of_f32 fsub now texts model s = (Inr (found, missing), s')))"
proof (intro conjI impI)
  assume a: "batch_get_embeddings cfg limit sha256 of_f32 fsub now texts model s = (Inr (found, missing), s')"
  have m: "missing = filter (\<lambda>i. found i = None) [0..<length texts]"
    and d: "dom found \<subseteq> {0..<length texts}"
    using batch_ok_cases [OF a] by (auto simp: found_after_def dom_def split: if_splits)
  from m d show "dom found \<union> set missing = {0..<length texts}" by auto
  from m show "dom found \<inter> set missing = {}" by auto
  have "sorted_wrt (<) (filter (\<lambda>i. found i = None) [0..<length texts])"
    by (intro sorted_wrt_filter) (simp add: sorted_wrt_upt)
  with m show "sorted_wrt (<) missing" by simp
next
  show "batch_get_embeddings cfg limit sha256 of_f32 fsub now [] model s = (Inr (Map.empty, []), s)"
    by (simp add: batch_get_embeddings_def)
next
  assume a: "(\<forall>t\<in>set texts. \<forall>c\<in>set t. encodable c) \<and> (\<forall>c\<in>set model. encodable c) \<and>
    (\<forall>r\<in>set s. length (row_emb r) mod 4 = 0) \<and> MAX_VARS \<le> limit \<and>
    card {k. \<exists>r\<in>set s. row_key r = k \<and> expired cfg fsub now r \<and>
               (\<exists>i<length texts. make_key sha256 (texts ! i) model = Inr k)} \<le> limit"
  show "\<exists>found missing s'.
         batch_get_embeddings cfg limit sha256 of_f32 fsub now texts model s = (Inr (found, missing), s')"
  proof (cases "texts = []")
    case True
    then show ?thesis by (simp add: batch_get_embeddings_def)
  next
    case False
    from a have "\<forall>t\<in>set texts. \<exists>k. make_key sha256 t model = Inr k"
      using make_key_total by blast
    from make_keys_total [OF this] obtain keys where keys: "make_keys sha256 texts model = Inr keys" ..
    from a have "\<not> (\<exists>r\<in>set (select_in keys s). \<not> expired cfg fsub now r \<and> length (row_emb r) mod 4 \<noteq> 0)"
      by (auto simp: select_in_def)
    moreover from a have "\<not> limit < card (row_key ` {r \<in> set (select_in keys s). expired cfg fsub now r})"
      unfolding expired_keys_looked_up [OF keys] by simp
    ultimately show ?thesis unfolding batch_result [OF False keys] by simp
  qed
qed

lemma delete_expired_keys:
  assumes "wf_store s"
  shows "delete_keys (row_key ` {r \<in> set (select_in keys s). P r}) s =
         filter (\<lambda>r. \<not> (P r \<and> row_key r \<in> set keys)) s"
proof -
  have inj: "inj_on row_key (set s)" using assms by (rule wf_store_inj)
  have "(row_key r \<notin> row_key ` {r \<in> set (select_in keys s). P r}) = (\<not> (P r \<and> row_key r \<in> set keys))"
    if "r \<in> set s" for r
    using that inj by (auto simp: select_in_def dest: inj_onD)
  then show ?thesis unfolding delete_keys_def by (intro filter_cong) simp_all
qed

lemma length_filter_distinct_keys:
  assumes "wf_store s"
  shows "length (filter Q s) = card {k. \<exists>r\<in>set s. row_key r = k \<and> Q r}"
proof -
  have "distinct (map row_key (filter Q s))"
    using assms by (simp add: wf_store_def distinct_map_filter)
  from distinct_card [OF this]
  have "length (map row_key (filter Q s)) = card (set (map row_key (filter Q s)))"
    by (simp only: length_map)
  moreover have "set (map row_key (filter Q s)) = {k. \<exists>r\<in>set s. row_key r = k \<and> Q r}" by auto
  ultimately show ?thesis by (simp only: length_map)
qed

text \<open>
  What claim C8 describes holds for every call that returns. Let the table have unique
  keys and \<^verbatim>\<open>TTL_SECONDS\<close> be non-zero. Every position whose text has the key of a
  stored row with \<open>now - created_at > TTL_SECONDS\<close> (the difference as the floating-point
  subtraction gives it) is missing and not found, and that row is deleted. The store
  afterwards is the old one without exactly these rows: the number of deleted rows is the
  number of distinct expired keys that were looked up, however many positions share a key.
\<close>

lemma batch_expiry:
  assumes "wf_store s" and "TTL_SECONDS cfg \<noteq> 0"
    and "batch_get_embeddings cfg limit sha256 of_f32 fsub now texts model s = (Inr (found, missing), s')"
  shows "(\<forall>r\<in>set s. \<forall>i<length texts.
        fsub now (row_created_at r) > TTL_SECONDS cfg \<and>
        make_key sha256 (texts ! i) model = Inr (row_key r) \<longrightarrow>
          found i = None \<and> i \<in> set missing \<and> r \<notin> set s') \<and>
    s' = filter (\<lambda>r. \<not> (fsub now (row_created_at r) > TTL_SECONDS cfg \<and>
                       (\<exists>i<length texts. make_key sha256 (texts ! i) model = Inr (row_key r)))) s \<and>
    length s' + card {k. \<exists>r\<in>set s. row_key r = k \<and> fsub now (row_created_at r) > TTL_SECONDS cfg \<and>
                       (\<exists>i<length texts. make_key sha256 (texts ! i) model = Inr k)} = length s"
proof -
  let ?E = "\<lambda>r. fsub now (row_created_at r) > TTL_SECONDS cfg"
  let ?K = "\<lambda>k. \<exists>i<length texts. make_key sha256 (texts ! i) model = Inr k"
  have E: "expired cfg fsub now r = ?E r" for r using assms(2) by (simp add: expired_def)
  from batch_ok_cases [OF assms(3)] show ?thesis
  proof (elim disjE conjE exE)
    assume "texts = []" "s' = s"
    then show ?thesis by simp
  next
    fix keys
    assume keys: "make_keys sha256 texts model = Inr keys" and len: "length keys = length texts"
      and f: "found = (\<lambda>i. found_after of_f32 (if i < length keys
                  then filter (\<lambda>r. \<not> expired cfg fsub now r \<and> row_key r = keys ! i) s else []) None)"
      and m: "missing = filter (\<lambda>i. found i = None) [0..<length texts]"
      and d: "s' = delete_keys (row_key ` {r \<in> set (select_in keys s). expired cfg fsub now r}) s"
    from make_keys_nth [OF keys]
    have nth: "\<And>i. i < length texts \<Longrightarrow> make_key sha256 (texts ! i) model = Inr (keys ! i)" by simp
    have K: "(k \<in> set keys) = ?K k" for k
      using nth len by (auto simp: in_set_conv_nth)
    have s': "s' = filter (\<lambda>r. \<not> (?E r \<and> ?K (row_key r))) s"
      unfolding d delete_expired_keys [OF assms(1)] E K ..
    have miss: "found i = None \<and> i \<in> set missing \<and> r \<notin> set s'"
      if r: "r \<in> set s" and i: "i < length texts" and e: "?E r"
        and k: "make_key sha256 (texts ! i) model = Inr (row_key r)" for r i
    proof -
      from nth [OF i] k have ki: "keys ! i = row_key r" by simp
      have "x \<in> set s \<Longrightarrow> row_key x = keys ! i \<Longrightarrow> x = r" for x
        using wf_store_inj [OF assms(1)] r ki by (auto dest: inj_onD)
      with e have "filter (\<lambda>x. \<not> expired cfg fsub now x \<and> row_key x = keys ! i) s = []"
        by (auto simp: filter_empty_conv E)
      with i len have n: "found i = None" by (simp add: f found_after_def)
      with i have "i \<in> set missing" by (simp add: m)
      moreover from e k i have "r \<notin> set s'" unfolding s' by auto
      ultimately show ?thesis using n by simp
    qed
    have "length s' + length (filter (\<lambda>r. ?E r \<and> ?K (row_key r)) s) = length s"
      unfolding s' using sum_length_filter_compl [of "\<lambda>r. ?E r \<and> ?K (row_key r)" s] by simp
    moreover have "{k. \<exists>r\<in>set s. row_key r = k \<and> ?E r \<and> ?K (row_key r)} =
        {k. \<exists>r\<in>set s. row_key r = k \<and> ?E r \<and> ?K k}" by auto
    ultimately have c: "length s' + card {k. \<exists>r\<in>set s. row_key r = k \<and> ?E r \<and> ?K k} = length s"
      using length_filter_distinct_keys [OF assms(1), of "\<lambda>r. ?E r \<and> ?K (row_key r)"] by simp
    from miss s' c show ?thesis by blast
  qed
qed

lemma example_keys:
  "make_key example_digest [65] [109] = Inr (example_digest [109, 124, 65])"
  "make_key example_digest [66] [109] = Inr (example_digest [109, 124, 66])"
  "make_key example_digest [67] [109] = Inr (example_digest [109, 124, 67])"
  by (simp_all add: make_key_def base_def cleaned_def str_split_def isspace_def encodable_def
      utf8_units_def)

lemma example_batch:
  "batch_get_embeddings default_config 999 example_digest (\<lambda>w. w) (\<lambda>a b. a - b) 100 [[65], [66], [65], [67]] [109]
     [\<lparr>row_key = example_digest [109, 124, 66], row_model = [109], row_text = [66],
       row_emb = [0, 0, 128, 63], row_created_at = 50\<rparr>] =
   (Inr (Map.empty(1 \<mapsto> [0x3F800000]), [0, 2, 3]),
    [\<lparr>row_key = example_digest [109, 124, 66], row_model = [109], row_text = [66],
       row_emb = [0, 0, 128, 63], row_created_at = 50\<rparr>])"
  by (simp add: batch_get_embeddings_def example_keys key_to_idxs_def chunk_loop.simps MAX_VARS_def
      select_in_def example_digest_def expired_def default_config_def deserialize_emb_def
      f32_of_bytes_def idxs_of_def upt_rec)

text \<open>
  The texts \<open>["A", "B", "A", "C"]\<close> with only \<open>"B"\<close> cached: \<open>found\<close> has the key 1 and
  \<open>missing\<close> is \<open>[0, 2, 3]\<close>.
\<close>

theorem batch_partition_witness:
  "batch_get_embeddings default_config 999 example_digest (\<lambda>w. w) (\<lambda>a b. a - b) 100 [[65], [66], [65], [67]] [109]
     [\<lparr>row_key = example_digest [109, 124, 66], row_model = [109], row_text = [66],
       row_emb = [0, 0, 128, 63], row_created_at = 50\<rparr>] =
   (Inr (Map.empty(1 \<mapsto> [0x3F800000]), [0, 2, 3]),
    [\<lparr>row_key = example_digest [109, 124, 66], row_model = [109], row_text = [66],
       row_emb = [0, 0, 128, 63], row_created_at = 50\<rparr>]) \<and>
   dom (Map.empty(1 :: nat \<mapsto> [0x3F800000 :: 32 word])) \<union> set [0, 2, 3] = {0..<length [[65], [66], [65], [67 :: nat]]} \<and>
   dom (Map.empty(1 :: nat \<mapsto> [0x3F800000 :: 32 word])) \<inter> set [0, 2, 3] = {} \<and>
   sorted_wrt (<) [0, 2, 3 :: nat] \<and>
   (\<exists>found missing s'.
      batch_get_embeddings default_config 999 example_digest (\<lambda>w. w) (\<lambda>a b. a - b) 100 [[65], [66], [65], [67]] [109]
        [\<lparr>row_key = example_digest [109, 124, 66], row_model = [109], row_text = [66],
          row_emb = [0, 0, 128, 63], row_created_at = 50\<rparr>] = (Inr (found, missing), s'))"
proof -
  have "card {k. \<exists>r\<in>set [\<lparr>row_key = example_digest [109, 124, 66], row_model = [109], row_text = [66],
       row_emb = [0, 0, 128, 63], row_created_at = 50\<rparr>]. row_key r = k \<and>
       expired default_config (\<lambda>a b. a - b) 100 r \<and>
       (\<exists>i<length [[65], [66], [65], [67]].
          make_key example_digest ([[65], [66], [65], [67]] ! i) [109] = Inr k)} \<le> length
     [\<lparr>row_key = example_digest [109, 124, 66], row_model = [109], row_text = [66],
       row_emb = [0, 0, 128, 63], row_created_at = 50\<rparr>]"
    by (rule card_keys_le_length)
  then have hyp: "(\<forall>t\<in>set [[65], [66], [65], [67]]. \<forall>c\<in>set t. encodable c) \<and> (\<forall>c\<in>set [109]. encodable c) \<and>
   (\<forall>r\<in>set [\<lparr>row_key = example_digest [109, 124, 66], row_model = [109], row_text = [66],
       row_emb = [0, 0, 128, 63], row_created_at = 50\<rparr>]. length (row_emb r) mod 4 = 0) \<and>
   MAX_VARS \<le> 999 \<and>
   card {k. \<exists>r\<in>set [\<lparr>row_key = example_digest [109, 124, 66], row_model = [109], row_text = [66],
       row_emb = [0, 0, 128, 63], row_created_at = 50\<rparr>]. row_key r = k \<and>
       expired default_config (\<lambda>a b. a - b) 100 r \<and>
       (\<exists>i<length [[65], [66], [65], [67]].
          make_key example_digest ([[65], [66], [65], [67]] ! i) [109] = Inr k)} \<le> 999"
    by (simp add: encodable_def MAX_VARS_def)
  note p = batch_partition [THEN conjunct1, THEN mp, OF example_batch]
  note q = batch_partition [THEN conjunct2, THEN conjunct2, THEN mp, OF hyp]
  from example_batch p q show ?thesis by (intro conjI) simp_all
qed

text \<open>
  Claim C9. The loop over chunks of at most 900 keys gives the result, the exception and
  the store that one query over all keys gives; and so does the loop with any other
  positive chunk size.
\<close>

theorem chunking_equivalence:
  "batch_get_embeddings cfg limit sha256 of_f32 fsub now texts model s =
     batch_get_unchunked cfg limit sha256 of_f32 fsub now texts model s \<and>
   (0 < max_vars \<longrightarrow>
      chunk_loop cfg of_f32 fsub now (key_to_idxs keys) s max_vars keys 0 st =
        process_rows cfg of_f32 fsub now (key_to_idxs keys) (select_in keys s) st)"
  using batch_chunking chunk_loop_single_query [OF one_key_key_to_idxs, of max_vars cfg of_f32 fsub now keys s keys 0 st]
  by simp

text \<open>
  Three keys in chunks of two, with the first key repeated in the second chunk and the
  row of the second key expired.
\<close>

theorem chunking_equivalence_witness:
  "(0 :: nat) < 2 \<and>
   chunk_loop default_config (\<lambda>w. w) (\<lambda>a b. a - b) 100
      (key_to_idxs [example_digest [109, 124, 65], example_digest [109, 124, 66], example_digest [109, 124, 65]])
      [\<lparr>row_key = example_digest [109, 124, 65], row_model = [109], row_text = [65],
         row_emb = [0, 0, 128, 63], row_created_at = 50\<rparr>,
       \<lparr>row_key = example_digest [109, 124, 66], row_model = [109], row_text = [66],
         row_emb = [0, 0, 128, 63], row_created_at = - 3000000\<rparr>]
      2 [example_digest [109, 124, 65], example_digest [109, 124, 66], example_digest [109, 124, 65]] 0
      (Map.empty, {}) =
   Inr (Map.empty(0 \<mapsto> [0x3F800000], 2 \<mapsto> [0x3F800000]), {example_digest [109, 124, 66]})"
proof -
  have z: "(0 :: nat) < 2" by simp
  have e: "process_rows default_config (\<lambda>w. w) (\<lambda>a b. a - b) 100
      (key_to_idxs [example_digest [109, 124, 65], example_digest [109, 124, 66], example_digest [109, 124, 65]])
      (select_in [example_digest [109, 124, 65], example_digest [109, 124, 66], example_digest [109, 124, 65]]
      [\<lparr>row_key = example_digest [109, 124, 65], row_model = [109], row_text = [65],
         row_emb = [0, 0, 128, 63], row_created_at = 50\<rparr>,
       \<lparr>row_key = example_digest [109, 124, 66], row_model = [109], row_text = [66],
         row_emb = [0, 0, 128, 63], row_created_at = - 3000000\<rparr>])
      (Map.empty, {}) =
      Inr (Map.empty(0 \<mapsto> [0x3F800000], 2 \<mapsto> [0x3F800000]), {example_digest [109, 124, 66]})"
  proof -
    have n: "Map.empty(0 \<mapsto> [0x3F800000 :: 32 word], Suc (Suc 0) \<mapsto> [0x3F800000]) =
        Map.empty(0 \<mapsto> [0x3F800000], 2 \<mapsto> [0x3F800000])"
      by (simp only: numeral_2_eq_2)
    show ?thesis unfolding n [symmetric]
      by (simp add: key_to_idxs_def select_in_def example_digest_def expired_def default_config_def
          deserialize_emb_def f32_of_bytes_def idxs_of_def)
  qed
  note c = chunking_equivalence [THEN conjunct2, THEN mp, OF z]
  from c e have "chunk_loop default_config (\<lambda>w. w) (\<lambda>a b. a - b) 100
      (key_to_idxs [example_digest [109, 124, 65], example_digest [109, 124, 66], example_digest [109, 124, 65]])
      [\<lparr>row_key = example_digest [109, 124, 65], row_model = [109], row_text = [65],
         row_emb = [0, 0, 128, 63], row_created_at = 50\<rparr>,
       \<lparr>row_key = example_digest [109, 124, 66], row_model = [109], row_text = [66],
         row_emb = [0, 0, 128, 63], row_created_at = - 3000000\<rparr>]
      2 [example_digest [109, 124, 65], example_digest [109, 124, 66], example_digest [109, 124, 65]] 0
      (Map.empty, {}) =
      Inr (Map.empty(0 \<mapsto> [0x3F800000], 2 \<mapsto> [0x3F800000]), {example_digest [109, 124, 66]})"
    by (rule trans)
  with z show ?thesis by (rule conjI)
qed

text \<open>
  \<open>"A"\<close> at positions 0 and 2 with an expired row, \<open>"B"\<close> fresh, and an expired row of
  \<open>"C"\<close> that is not looked up: the row of \<open>"A"\<close> is deleted once, the row of \<open>"C"\<close> stays.
\<close>

lemma batch_expiry_example:
  "batch_get_embeddings default_config 999 example_digest (\<lambda>w. w) (\<lambda>a b. a - b) 3000000 [[65], [66], [65]] [109]
     [\<lparr>row_key = example_digest [109, 124, 65], row_model = [109], row_text = [65],
        row_emb = [0, 0, 128, 63], row_created_at = 0\<rparr>,
      \<lparr>row_key = example_digest [109, 124, 66], row_model = [109], row_text = [66],
        row_emb = [0, 0, 128, 63], row_created_at = 2999990\<rparr>,
      \<lparr>row_key = example_digest [109, 124, 67], row_model = [109], row_text = [67],
        row_emb = [0, 0, 128, 63], row_created_at = 0\<rparr>] =
   (Inr (Map.empty(1 \<mapsto> [0x3F800000]), [0, 2]),
     [\<lparr>row_key = example_digest [109, 124, 66], row_model = [109], row_text = [66],
        row_emb = [0, 0, 128, 63], row_created_at = 2999990\<rparr>,
      \<lparr>row_key = example_digest [109, 124, 67], row_model = [109], row_text = [67],
        row_emb = [0, 0, 128, 63], row_created_at = 0\<rparr>]) \<and>
   (Map.empty(1 :: nat \<mapsto> [0x3F800000 :: 32 word])) 2 = None \<and> 2 \<in> set [0, 2 :: nat] \<and>
   \<lparr>row_key = example_digest [109, 124, 65], row_model = [109], row_text = [65],
        row_emb = [0, 0, 128, 63], row_created_at = 0\<rparr> \<notin> set
     [\<lparr>row_key = example_digest [109, 124, 66], row_model = [109], row_text = [66],
        row_emb = [0, 0, 128, 63], row_created_at = 2999990\<rparr>,
      \<lparr>row_key = example_digest [109, 124, 67], row_model = [109], row_text = [67],
        row_emb = [0, 0, 128, 63], row_created_at = 0\<rparr>]"
proof -
  define ra where "ra = \<lparr>row_key = example_digest [109, 124, 65], row_model = [109], row_text = [65],
        row_emb = [0, 0, 128, 63], row_created_at = 0\<rparr>"
  define rb where "rb = \<lparr>row_key = example_digest [109, 124, 66], row_model = [109], row_text = [66],
        row_emb = [0, 0, 128, 63], row_created_at = 2999990\<rparr>"
  define rc where "rc = \<lparr>row_key = example_digest [109, 124, 67], row_model = [109], row_text = [67],
        row_emb = [0, 0, 128, 63], row_created_at = 0\<rparr>"
  note rs = ra_def rb_def rc_def
  have wf: "wf_store [ra, rb, rc]" by (simp add: wf_store_def rs example_digest_def)
  have ttl: "TTL_SECONDS default_config \<noteq> 0" by (simp add: default_config_def)
  have b: "batch_get_embeddings default_config 999 example_digest (\<lambda>w. w) (\<lambda>a b. a - b) 3000000 [[65], [66], [65]] [109]
      [ra, rb, rc] = (Inr (Map.empty(1 \<mapsto> [0x3F800000]), [0, 2]), [rb, rc])"
    by (simp add: batch_get_embeddings_def example_keys key_to_idxs_def chunk_loop.simps MAX_VARS_def
      select_in_def example_digest_def expired_def default_config_def deserialize_emb_def
      f32_of_bytes_def idxs_of_def upt_rec delete_keys_def rs)
  have mem: "ra \<in> set [ra, rb, rc]" by simp
  have i: "2 < length [[65], [66], [65 :: nat]]" by simp
  have h: "3000000 - row_created_at ra > TTL_SECONDS default_config \<and>
      make_key example_digest ([[65], [66], [65]] ! 2) [109] = Inr (row_key ra)"
    by (simp add: example_keys rs default_config_def)
  note t = batch_expiry [OF wf ttl b, THEN conjunct1, THEN bspec, OF mem, THEN spec, THEN mp, OF i,
      THEN mp, OF h]
  from b t show ?thesis unfolding rs by (intro conjI) simp_all
qed

subsection \<open>The unchunked deletion of expired keys\<close>

lemma example_digest_inj: "example_digest a = example_digest b \<Longrightarrow> a = b"
proof -
  have i: "char_of (unat x) = char_of (unat y) \<Longrightarrow> x = y" for x y :: "8 word"
  proof -
    assume "char_of (unat x) = char_of (unat y)"
    then have "of_char (char_of (unat x)) = (of_char (char_of (unat y)) :: nat)" by simp
    then have "unat x mod 256 = unat y mod 256" by (simp add: of_char_of)
    moreover have "unat x < 256" "unat y < 256"
      using unsigned_less [of x, where 'a = nat] unsigned_less [of y, where 'a = nat] by simp_all
    ultimately have "unat x = unat y" by simp
    then show "x = y" by (rule word_unat_eq_iff [THEN iffD2])
  qed
  show "example_digest a = example_digest b \<Longrightarrow> a = b"
    unfolding example_digest_def
    by (induction a arbitrary: b) (auto simp: map_eq_Cons_conv dest: i)
qed

lemma utf8_bytes_inj:
  assumes "c < 0x110000" "d < 0x110000"
    and "(map of_nat (utf8_units c) :: bytes) = map of_nat (utf8_units d)"
  shows "c = d"
proof -
  have u: "map unat (map of_nat (utf8_units x) :: bytes) = utf8_units x" if "x < 0x110000" for x
  proof -
    from that have "\<forall>b\<in>set (utf8_units x). b < 256" using utf8_units_bytes by blast
    then show ?thesis by (induction "utf8_units x") (auto simp: unat_of_nat map_idI)
  qed
  from assms(3) have "map unat (map of_nat (utf8_units c) :: bytes) = map unat (map of_nat (utf8_units d) :: bytes)"
    by simp
  then have "utf8_units c = utf8_units d" using u [OF assms(1)] u [OF assms(2)] by simp
  then have "utf8_units c @ [] = utf8_units d @ []" by simp
  from utf8_units_prefix_free [OF assms(1,2) this] show ?thesis by simp
qed

lemma make_key_single:
  assumes "encodable c" "\<not> isspace c"
  shows "make_key sha256 [c] [109] = Inr (sha256 (109 # 124 # map of_nat (utf8_units c)))"
proof -
  have u: "utf8_units 109 = [109]" "utf8_units 124 = [124]" by (simp_all add: utf8_units_def)
  have e: "encodable 109" "encodable 124" by (simp_all add: encodable_def)
  have "cleaned [c] = [c]" using assms(2) by (simp add: cleaned_def str_split_def)
  then have "base [c] [109] = [109, 124, c]" by (simp add: base_def)
  then show ?thesis using assms(1) e u by (simp add: make_key_def)
qed

text \<open>
  Claim C8. The deletion of the expired keys is a single \<^verbatim>\<open>DELETE\<close> statement with one
  bound parameter for every expired key; unlike the query of the same function it is not
  split into chunks. When the texts address more expired keys than the ceiling on bound
  parameters admits, the statement raises: the call ends with
  \<^verbatim>\<open>sqlite3.OperationalError\<close>, returns neither \<open>found\<close> nor \<open>missing\<close>, and leaves
  every row in the table, the expired ones included.
\<close>

theorem batch_expiry_delete_fails:
  assumes "MAX_VARS \<le> limit"
    and "\<forall>t\<in>set texts. \<forall>c\<in>set t. encodable c" and "\<forall>c\<in>set model. encodable c"
    and "\<forall>r\<in>set s. length (row_emb r) mod 4 = 0"
    and "limit < card {k. \<exists>r\<in>set s. row_key r = k \<and> expired cfg fsub now r \<and>
                         (\<exists>i<length texts. make_key sha256 (texts ! i) model = Inr k)}"
  shows "batch_get_embeddings cfg limit sha256 of_f32 fsub now texts model s = (Inl OperationalError, s)"
proof -
  have ne: "texts \<noteq> []"
  proof
    assume "texts = []"
    then have "{k. \<exists>r\<in>set s. row_key r = k \<and> expired cfg fsub now r \<and>
                   (\<exists>i<length texts. make_key sha256 (texts ! i) model = Inr k)} = {}" by simp
    with assms(5) show False by simp
  qed
  from assms(2,3) have "\<forall>t\<in>set texts. \<exists>k. make_key sha256 t model = Inr k"
    using make_key_total by blast
  from make_keys_total [OF this] obtain keys where keys: "make_keys sha256 texts model = Inr keys" ..
  from assms(4) have "\<not> (\<exists>r\<in>set (select_in keys s). \<not> expired cfg fsub now r \<and> length (row_emb r) mod 4 \<noteq> 0)"
    by (auto simp: select_in_def)
  moreover from assms(5) have "limit < card (row_key ` {r \<in> set (select_in keys s). expired cfg fsub now r})"
    unfolding expired_keys_looked_up [OF keys] .
  ultimately show ?thesis unfolding batch_result [OF ne keys] by simp
qed

text \<open>
  A ceiling of 999 parameters and the thousand one-character texts of the code points 256
  to 1255, each with an expired row in the table.
\<close>

theorem batch_expiry_delete_fails_witness:
  "batch_get_embeddings default_config 999 example_digest (\<lambda>w. w :: 32 word) (\<lambda>a b. a - b) 3000000
     (map (\<lambda>c. [c]) [256..<1256]) [109]
     (map (\<lambda>c. \<lparr>row_key = example_digest (109 # 124 # map of_nat (utf8_units c)), row_model = [109],
                 row_text = [c], row_emb = [], row_created_at = 0\<rparr>) [256..<1256]) =
   (Inl OperationalError,
     map (\<lambda>c. \<lparr>row_key = example_digest (109 # 124 # map of_nat (utf8_units c)), row_model = [109],
                 row_text = [c], row_emb = [], row_created_at = 0\<rparr>) [256..<1256])"
proof -
  define cs :: "nat list" where "cs = [256..<1256]"
  define K :: "nat \<Rightarrow> string" where "K c = example_digest (109 # 124 # map of_nat (utf8_units c))" for c
  define mk :: "nat \<Rightarrow> row" where "mk c = \<lparr>row_key = K c, row_model = [109],
                 row_text = [c], row_emb = [], row_created_at = 0\<rparr>" for c
  define texts :: "str list" where "texts = map (\<lambda>c. [c]) cs"
  define s where "s = map mk cs"
  have range: "256 \<le> c \<and> c < 1256" if "c \<in> set cs" for c
    using that by (simp only: cs_def set_upt atLeastLessThan_iff)
  have dist: "distinct cs" by (simp only: cs_def distinct_upt)
  have len: "length cs = 1000" by (simp only: cs_def length_upt)
  have enc: "encodable c" if "c \<in> set cs" for c using range [OF that] by (simp add: encodable_def)
  have nsp: "\<not> isspace c" if "c \<in> set cs" for c using range [OF that] by (simp add: isspace_def)
  have key: "make_key example_digest [c] [109] = Inr (K c)" if "c \<in> set cs" for c
    unfolding K_def using enc [OF that] nsp [OF that] by (rule make_key_single)
  have inj: "inj_on K (set cs)"
  proof (rule inj_onI)
    fix c d assume c: "c \<in> set cs" and d: "d \<in> set cs" and e: "K c = K d"
    from e have "(map of_nat (utf8_units c) :: bytes) = map of_nat (utf8_units d)"
      unfolding K_def by (auto dest: example_digest_inj)
    moreover have "c < 0x110000" "d < 0x110000" using range [OF c] range [OF d] by simp_all
    ultimately show "c = d" by (intro utf8_bytes_inj)
  qed
  have h1: "MAX_VARS \<le> 999" by (simp add: MAX_VARS_def)
  have h2: "\<forall>t\<in>set texts. \<forall>c\<in>set t. encodable c" using enc by (auto simp: texts_def)
  have h3: "\<forall>c\<in>set [109]. encodable c" by (simp add: encodable_def)
  have h4: "\<forall>r\<in>set s. length (row_emb r) mod 4 = 0" by (auto simp: s_def mk_def)
  have ex: "expired default_config (\<lambda>a b. a - b) 3000000 (mk c)" for c
    by (simp add: expired_def default_config_def mk_def)
  have looked: "\<exists>i<length texts. make_key example_digest (texts ! i) [109] = Inr (K c)"
    if "c \<in> set cs" for c
  proof -
    from that obtain i where i: "i < length cs" "cs ! i = c" by (auto simp: in_set_conv_nth)
    then have "texts ! i = [c]" "i < length texts" by (simp_all add: texts_def)
    with key [OF that] show ?thesis by auto
  qed
  have "{k. \<exists>r\<in>set s. row_key r = k \<and> expired default_config (\<lambda>a b. a - b) 3000000 r \<and>
           (\<exists>i<length texts. make_key example_digest (texts ! i) [109] = Inr k)} = K ` set cs"
  proof (intro set_eqI iffI)
    fix k assume "k \<in> {k. \<exists>r\<in>set s. row_key r = k \<and> expired default_config (\<lambda>a b. a - b) 3000000 r \<and>
           (\<exists>i<length texts. make_key example_digest (texts ! i) [109] = Inr k)}"
    then show "k \<in> K ` set cs" by (auto simp: s_def mk_def)
  next
    fix k assume "k \<in> K ` set cs"
    then obtain c where c: "c \<in> set cs" "k = K c" by auto
    then have "mk c \<in> set s" "row_key (mk c) = k" by (simp_all add: s_def mk_def)
    with ex [of c] looked [OF c(1)] c(2)
    show "k \<in> {k. \<exists>r\<in>set s. row_key r = k \<and> expired default_config (\<lambda>a b. a - b) 3000000 r \<and>
           (\<exists>i<length texts. make_key example_digest (texts ! i) [109] = Inr k)}" by blast
  qed
  moreover have "card (K ` set cs) = 1000"
    using inj dist len by (simp add: card_image distinct_card)
  ultimately have h5: "999 < card {k. \<exists>r\<in>set s. row_key r = k \<and>
      expired default_config (\<lambda>a b. a - b) 3000000 r \<and>
      (\<exists>i<length texts. make_key example_digest (texts ! i) [109] = Inr k)}" by simp
  from batch_expiry_delete_fails [OF h1 h2 h3 h4 h5, of "\<lambda>w. w :: 32 word"]
  show ?thesis unfolding texts_def s_def mk_def K_def cs_def .
qed

end
